theory Spec2Isabelle
  imports Main
begin

section \<open>MoodleReplacement.c: the record store and its command interpreter\<close>

text \<open>
  The program keeps three global arrays (\<^verbatim>\<open>students\<close>, \<^verbatim>\<open>exams\<close>, \<^verbatim>\<open>grades\<close>) with three
  global counters, reads \<^verbatim>\<open>input.txt\<close> line by line, and prints one response per command.
  The embedding keeps the arrays at their declared sizes together with the counters, so an
  array holds live entries below its counter and dead storage above it. Every function of
  the source is a function on this store; the text a function prints with \<^verbatim>\<open>fprintf\<close> is
  returned beside the new store.

  Behaviour that C leaves undefined is a value of the model: a write outside an array, a
  \<^verbatim>\<open>strcpy\<close> or \<^verbatim>\<open>%s\<close> conversion longer than its destination, a read of the command buffer
  that no conversion has filled, and a \<^verbatim>\<open>%d\<close> conversion outside the range of \<^verbatim>\<open>int\<close> are the
  four faults below. Values of the C type \<^verbatim>\<open>int\<close> are modelled by \<open>int\<close>; array indices and the
  counters, which the program never makes negative, by \<open>nat\<close>. A C string is the list of its
  characters before the terminating NUL.
\<close>

subsection \<open>Constants and data\<close>

definition MAX_STUDENTS :: nat where "MAX_STUDENTS = 100"
definition MAX_EXAMS :: nat where "MAX_EXAMS = 100"
definition MAX_NAME_LENGTH :: nat where "MAX_NAME_LENGTH = 100"
definition MAX_FACULTY_LENGTH :: nat where "MAX_FACULTY_LENGTH = 100"
definition MAX_TYPE_LENGTH :: nat where "MAX_TYPE_LENGTH = 20"
definition MAX_COMMAND_LENGTH :: nat where "MAX_COMMAND_LENGTH = 256"

text \<open>\<^verbatim>\<open>Grade grades[MAX_EXAMS * MAX_STUDENTS]\<close>: the size of the third array.\<close>

definition MAX_GRADES :: nat where "MAX_GRADES = MAX_EXAMS * MAX_STUDENTS"

record Student =
  Student_id :: int
  Student_name :: string
  Student_faculty :: string

record Exam =
  Exam_id :: int
  Exam_type :: string
  Exam_info :: string

record Grade =
  Grade_exam_id :: int
  Grade_student_id :: int
  Grade_grade :: int

record store =
  students :: "Student list"
  exams :: "Exam list"
  grades :: "Grade list"
  student_count :: nat
  exam_count :: nat
  grade_count :: nat

datatype fault = OutOfBounds | BufferOverflow | Uninitialised | IntOutOfRange

text \<open>Objects of static storage duration start zeroed: empty strings, zero numbers.\<close>

definition zero_Student :: Student where
  "zero_Student = \<lparr>Student_id = 0, Student_name = [], Student_faculty = []\<rparr>"

definition zero_Exam :: Exam where
  "zero_Exam = \<lparr>Exam_id = 0, Exam_type = [], Exam_info = []\<rparr>"

definition zero_Grade :: Grade where
  "zero_Grade = \<lparr>Grade_exam_id = 0, Grade_student_id = 0, Grade_grade = 0\<rparr>"

definition init_store :: store where
  "init_store =
     \<lparr>students = replicate MAX_STUDENTS zero_Student,
      exams = replicate MAX_EXAMS zero_Exam,
      grades = replicate MAX_GRADES zero_Grade,
      student_count = 0, exam_count = 0, grade_count = 0\<rparr>"

subsection \<open>The C library, as far as the program uses it\<close>

definition newline :: string where
  "newline = [CHR 0x0A]"

text \<open>
  \<^verbatim>\<open>isalpha\<close>, \<^verbatim>\<open>isspace\<close> and the decimal digits in the C locale. A byte from 128 on is in none
  of the classes (where \<^verbatim>\<open>char\<close> is signed it is a negative argument, for which the common
  libraries answer no).
\<close>

definition isalpha :: "char \<Rightarrow> bool" where
  "isalpha c =
     (let n = (of_char c :: nat) in (65 \<le> n \<and> n \<le> 90) \<or> (97 \<le> n \<and> n \<le> 122))"

definition isspace :: "char \<Rightarrow> bool" where
  "isspace c =
     (let n = (of_char c :: nat) in n = 32 \<or> (9 \<le> n \<and> n \<le> 13))"

definition isdigit :: "char \<Rightarrow> bool" where
  "isdigit c = (let n = (of_char c :: nat) in 48 \<le> n \<and> n \<le> 57)"

text \<open>\<^verbatim>\<open>%d\<close> of \<^verbatim>\<open>fprintf\<close>: the decimal digits, after a minus sign for a negative number.\<close>

definition digit_char :: "nat \<Rightarrow> char" where
  "digit_char n = ''0123456789'' ! n"

fun digits :: "nat \<Rightarrow> string" where
  "digits n = (if n < 10 then [digit_char n] else digits (n div 10) @ [digit_char (n mod 10)])"

declare digits.simps [simp del]

definition fmt_d :: "int \<Rightarrow> string" where
  "fmt_d i = (if i < 0 then CHR ''-'' # digits (nat (- i)) else digits (nat i))"

text \<open>
  The C string a character array holds: its characters before the first NUL. \<^verbatim>\<open>fgets\<close> stores
  a NUL it reads from the file like any other character, so the string the program then
  sees in the buffer ends there.
\<close>

definition c_string :: "string \<Rightarrow> string" where
  "c_string buf = takeWhile (\<lambda>c. c \<noteq> CHR 0x00) buf"

text \<open>
  \<^verbatim>\<open>strcpy\<close> into a character array of \<open>cap\<close> bytes: the string and its NUL must fit.
  The result is the string the destination holds afterwards.
\<close>

definition strcpy :: "nat \<Rightarrow> string \<Rightarrow> fault + string" where
  "strcpy cap src = (if length src < cap then Inr src else Inl BufferOverflow)"

subsection \<open>Lookup\<close>

text \<open>
  \<^verbatim>\<open>for (int i = 0; i < student_count; i++) if (students[i].id == id) return i; return -1;\<close>
  The result \<^verbatim>\<open>-1\<close> is \<open>None\<close>.
\<close>

function find_student_from :: "store \<Rightarrow> int \<Rightarrow> nat \<Rightarrow> nat option" where
  "find_student_from s id' i =
     (if i < student_count s
      then (if Student_id (students s ! i) = id' then Some i
            else find_student_from s id' (i + 1))
      else None)"
  by pat_completeness auto
termination
  by (relation "measure (\<lambda>(s, id', i). student_count s - i)") auto

declare find_student_from.simps [simp del]

definition find_student :: "store \<Rightarrow> int \<Rightarrow> nat option" where
  "find_student s id' = find_student_from s id' 0"

function find_exam_from :: "store \<Rightarrow> int \<Rightarrow> nat \<Rightarrow> nat option" where
  "find_exam_from s id' i =
     (if i < exam_count s
      then (if Exam_id (exams s ! i) = id' then Some i
            else find_exam_from s id' (i + 1))
      else None)"
  by pat_completeness auto
termination
  by (relation "measure (\<lambda>(s, id', i). exam_count s - i)") auto

declare find_exam_from.simps [simp del]

definition find_exam :: "store \<Rightarrow> int \<Rightarrow> nat option" where
  "find_exam s id' = find_exam_from s id' 0"

subsection \<open>Adding\<close>

text \<open>The loop of \<^verbatim>\<open>add_student\<close> over the name, up to its NUL.\<close>

fun name_isalpha :: "string \<Rightarrow> bool" where
  "name_isalpha [] = True"
| "name_isalpha (c # cs) = (if \<not> isalpha c then False else name_isalpha cs)"

text \<open>
  \<^verbatim>\<open>add_student\<close>. The first store to \<^verbatim>\<open>students[student_count]\<close> is outside the array when
  \<^verbatim>\<open>student_count\<close> has reached \<^verbatim>\<open>MAX_STUDENTS\<close>: the source does not test for it.
\<close>

definition add_student :: "int \<Rightarrow> string \<Rightarrow> string \<Rightarrow> store \<Rightarrow> fault + (string \<times> store)" where
  "add_student id' name faculty s =
     (if find_student s id' \<noteq> None
      then Inr (''Student: '' @ fmt_d id' @ '' already exists'' @ newline, s)
      else if length name \<ge> MAX_NAME_LENGTH \<or> length faculty \<ge> MAX_FACULTY_LENGTH
      then Inr (''Invalid name or faculty length'' @ newline, s)
      else if faculty \<noteq> ''SoftwareEngineering'' \<and>
              faculty \<noteq> ''ComputerScience'' \<and>
              faculty \<noteq> ''DataScience'' \<and>
              faculty \<noteq> ''CyberSecurity'' \<and>
              faculty \<noteq> ''InformationTechnology'' \<and>
              faculty \<noteq> ''ProgrammingLanguagesAndCompilers''
      then Inr (''Invalid faculty'' @ newline, s)
      else if \<not> name_isalpha name
      then Inr (''Invalid name'' @ newline, s)
      else if \<not> student_count s < MAX_STUDENTS then Inl OutOfBounds
      else (case strcpy MAX_NAME_LENGTH name of
              Inl f \<Rightarrow> Inl f
            | Inr dst_name \<Rightarrow>
               (case strcpy MAX_FACULTY_LENGTH faculty of
                  Inl f \<Rightarrow> Inl f
                | Inr dst_faculty \<Rightarrow>
                    Inr (''Student: '' @ fmt_d id' @ '' added'' @ newline,
                         s\<lparr>students := (students s)[student_count s :=
                                         \<lparr>Student_id = id', Student_name = dst_name,
                                          Student_faculty = dst_faculty\<rparr>],
                           student_count := student_count s + 1\<rparr>))))"

definition add_exam :: "int \<Rightarrow> string \<Rightarrow> string \<Rightarrow> store \<Rightarrow> fault + (string \<times> store)" where
  "add_exam id' type info s =
     (if find_exam s id' \<noteq> None
      then Inr (''Exam: '' @ fmt_d id' @ '' already exists'' @ newline, s)
      else if length type \<ge> MAX_TYPE_LENGTH \<or> length info \<ge> MAX_NAME_LENGTH
      then Inr (''Invalid type or info length'' @ newline, s)
      else if \<not> exam_count s < MAX_EXAMS then Inl OutOfBounds
      else (case strcpy MAX_TYPE_LENGTH type of
              Inl f \<Rightarrow> Inl f
            | Inr dst_type \<Rightarrow>
               (case strcpy MAX_NAME_LENGTH info of
                  Inl f \<Rightarrow> Inl f
                | Inr dst_info \<Rightarrow>
                    Inr (''Exam: '' @ fmt_d id' @ '' added'' @ newline,
                         s\<lparr>exams := (exams s)[exam_count s :=
                                      \<lparr>Exam_id = id', Exam_type = dst_type, Exam_info = dst_info\<rparr>],
                           exam_count := exam_count s + 1\<rparr>))))"

definition add_grade :: "int \<Rightarrow> int \<Rightarrow> int \<Rightarrow> store \<Rightarrow> fault + (string \<times> store)" where
  "add_grade exam_id student_id grade_value s =
     (if grade_value < 0 \<or> grade_value > 100
      then Inr (''Invalid grade'' @ newline, s)
      else if find_student s student_id = None
      then Inr (''Student not found'' @ newline, s)
      else if find_exam s exam_id = None
      then Inr (''Exam not found'' @ newline, s)
      else if \<not> grade_count s < MAX_GRADES then Inl OutOfBounds
      else Inr (''Grade '' @ fmt_d grade_value @ '' added for the student: '' @ fmt_d student_id
                  @ newline,
                s\<lparr>grades := (grades s)[grade_count s :=
                               \<lparr>Grade_exam_id = exam_id, Grade_student_id = student_id,
                                Grade_grade = grade_value\<rparr>],
                  grade_count := grade_count s + 1\<rparr>))"

subsection \<open>Updating\<close>

text \<open>
  \<^verbatim>\<open>update_exam\<close> copies both strings without a length test. \<^verbatim>\<open>WRITTEN\<close> and \<^verbatim>\<open>DIGITAL\<close> fit
  the \<^verbatim>\<open>type\<close> field; \<^verbatim>\<open>new_info\<close> must fit the \<^verbatim>\<open>info\<close> field of \<^verbatim>\<open>MAX_NAME_LENGTH\<close> bytes.
\<close>

definition update_exam :: "int \<Rightarrow> string \<Rightarrow> string \<Rightarrow> store \<Rightarrow> fault + (string \<times> store)" where
  "update_exam id' new_type new_info s =
     (case find_exam s id' of
        None \<Rightarrow> Inr (''Exam not found'' @ newline, s)
      | Some index \<Rightarrow>
          if new_type \<noteq> ''WRITTEN'' \<and> new_type \<noteq> ''DIGITAL''
          then Inr (''Invalid exam type'' @ newline, s)
          else (case strcpy MAX_TYPE_LENGTH new_type of
                  Inl f \<Rightarrow> Inl f
                | Inr dst_type \<Rightarrow>
                   (case strcpy MAX_NAME_LENGTH new_info of
                      Inl f \<Rightarrow> Inl f
                    | Inr dst_info \<Rightarrow>
                        Inr (''Exam: '' @ fmt_d id' @ '' updated'' @ newline,
                             s\<lparr>exams := (exams s)[index :=
                                          (exams s ! index)\<lparr>Exam_type := dst_type,
                                                             Exam_info := dst_info\<rparr>]\<rparr>))))"

text \<open>The loop of \<^verbatim>\<open>update_grade\<close>, from index \<open>i\<close>; falling out of it prints "Student not found".\<close>

function update_grade_from :: "int \<Rightarrow> int \<Rightarrow> int \<Rightarrow> store \<Rightarrow> nat \<Rightarrow> string \<times> store" where
  "update_grade_from exam_id student_id new_grade s i =
     (if i < grade_count s
      then (if Grade_exam_id (grades s ! i) = exam_id \<and> Grade_student_id (grades s ! i) = student_id
            then (''Grade '' @ fmt_d new_grade @ '' updated for the student: '' @ fmt_d student_id
                    @ newline,
                  s\<lparr>grades := (grades s)[i := (grades s ! i)\<lparr>Grade_grade := new_grade\<rparr>]\<rparr>)
            else update_grade_from exam_id student_id new_grade s (i + 1))
      else (''Student not found'' @ newline, s))"
  by pat_completeness auto
termination
  by (relation "measure (\<lambda>(exam_id, student_id, new_grade, s, i). grade_count s - i)") auto

declare update_grade_from.simps [simp del]

definition update_grade :: "int \<Rightarrow> int \<Rightarrow> int \<Rightarrow> store \<Rightarrow> string \<times> store" where
  "update_grade exam_id student_id new_grade s =
     (if new_grade < 0 \<or> new_grade > 100
      then (''Invalid grade'' @ newline, s)
      else update_grade_from exam_id student_id new_grade s 0)"

subsection \<open>Deleting\<close>

text \<open>
  The inner loop of \<^verbatim>\<open>delete_student\<close>:
  \<^verbatim>\<open>for (int j = i; j < grade_count - 1; j++) grades[j] = grades[j + 1];\<close>
  It is entered only below \<^verbatim>\<open>grade_count\<close>, so \<^verbatim>\<open>grade_count - 1\<close> is not negative.
\<close>

function shift_grades :: "nat \<Rightarrow> store \<Rightarrow> store" where
  "shift_grades j s =
     (if j < grade_count s - 1
      then shift_grades (j + 1) (s\<lparr>grades := (grades s)[j := grades s ! (j + 1)]\<rparr>)
      else s)"
  by pat_completeness auto
termination
  by (relation "measure (\<lambda>(j, s). grade_count s - j)") auto

declare shift_grades.simps [simp del]

text \<open>
  The outer loop. After a removal the source decrements \<^verbatim>\<open>i\<close> and the loop header increments
  it again, so the same index is examined next; otherwise the index advances.
\<close>

function delete_grades_from :: "int \<Rightarrow> nat \<Rightarrow> store \<Rightarrow> store" where
  "delete_grades_from id' i s =
     (if i < grade_count s
      then (if Grade_student_id (grades s ! i) = id'
            then (let s' = shift_grades i s
                  in delete_grades_from id' i (s'\<lparr>grade_count := grade_count s' - 1\<rparr>))
            else delete_grades_from id' (i + 1) s)
      else s)"
  by pat_completeness auto
termination
proof -
  have count: "grade_count (shift_grades j s) = grade_count s" for j s
    by (induction j s rule: shift_grades.induct) (subst shift_grades.simps, simp)
  show ?thesis
    by (relation "measure (\<lambda>(id', i, s). 2 * grade_count s - i)") (auto simp: count)
qed

declare delete_grades_from.simps [simp del]

text \<open>\<^verbatim>\<open>for (int i = index; i < student_count - 1; i++) students[i] = students[i + 1];\<close>\<close>

function shift_students :: "nat \<Rightarrow> store \<Rightarrow> store" where
  "shift_students i s =
     (if i < student_count s - 1
      then shift_students (i + 1) (s\<lparr>students := (students s)[i := students s ! (i + 1)]\<rparr>)
      else s)"
  by pat_completeness auto
termination
  by (relation "measure (\<lambda>(i, s). student_count s - i)") auto

declare shift_students.simps [simp del]

definition delete_student :: "int \<Rightarrow> store \<Rightarrow> string \<times> store" where
  "delete_student id' s =
     (case find_student s id' of
        None \<Rightarrow> (''Student not found'' @ newline, s)
      | Some index \<Rightarrow>
          (let s1 = delete_grades_from id' 0 s;
               s2 = shift_students index s1
           in (''Student: '' @ fmt_d id' @ '' deleted'' @ newline,
               s2\<lparr>student_count := student_count s2 - 1\<rparr>)))"

subsection \<open>Searching and listing\<close>

text \<open>The line both \<^verbatim>\<open>search_student\<close> and \<^verbatim>\<open>list_all_students\<close> print for one student.\<close>

definition student_line :: "Student \<Rightarrow> string" where
  "student_line st =
     ''ID: '' @ fmt_d (Student_id st) @ '', Name: '' @ Student_name st
       @ '', Faculty: '' @ Student_faculty st @ newline"

definition search_student :: "int \<Rightarrow> store \<Rightarrow> string" where
  "search_student id' s =
     (case find_student s id' of
        None \<Rightarrow> ''Student not found'' @ newline
      | Some index \<Rightarrow> student_line (students s ! index))"

function search_grade_from :: "int \<Rightarrow> int \<Rightarrow> nat \<Rightarrow> store \<Rightarrow> nat \<Rightarrow> string" where
  "search_grade_from exam_id student_id student_index s i =
     (if i < grade_count s
      then (if Grade_exam_id (grades s ! i) = exam_id \<and> Grade_student_id (grades s ! i) = student_id
            then (case find_exam s exam_id of
                    None \<Rightarrow> ''Exam not found'' @ newline
                  | Some exam_index \<Rightarrow>
                      ''Exam: '' @ fmt_d exam_id @ '', Student: '' @ fmt_d student_id
                        @ '', Name: '' @ Student_name (students s ! student_index)
                        @ '', Grade: '' @ fmt_d (Grade_grade (grades s ! i))
                        @ '', Type: '' @ Exam_type (exams s ! exam_index)
                        @ '', Info: '' @ Exam_info (exams s ! exam_index) @ newline)
            else search_grade_from exam_id student_id student_index s (i + 1))
      else ''Grade not found'' @ newline)"
  by pat_completeness auto
termination
  by (relation "measure (\<lambda>(exam_id, student_id, student_index, s, i). grade_count s - i)") auto

declare search_grade_from.simps [simp del]

definition search_grade :: "int \<Rightarrow> int \<Rightarrow> store \<Rightarrow> string" where
  "search_grade exam_id student_id s =
     (case find_student s student_id of
        None \<Rightarrow> ''Student not found'' @ newline
      | Some student_index \<Rightarrow> search_grade_from exam_id student_id student_index s 0)"

function list_all_students_from :: "store \<Rightarrow> nat \<Rightarrow> string" where
  "list_all_students_from s i =
     (if i < student_count s
      then student_line (students s ! i) @ list_all_students_from s (i + 1)
      else [])"
  by pat_completeness auto
termination
  by (relation "measure (\<lambda>(s, i). student_count s - i)") auto

declare list_all_students_from.simps [simp del]

definition list_all_students :: "store \<Rightarrow> string" where
  "list_all_students s = list_all_students_from s 0"

subsection \<open>Formatted scanning\<close>

text \<open>
  \<^verbatim>\<open>sscanf\<close> for the directives the program uses: \<^verbatim>\<open>%*s\<close> (a token, not stored), white space
  in the format, \<^verbatim>\<open>%d\<close>, and \<^verbatim>\<open>%s\<close> into a character array of a given size. \<^verbatim>\<open>%s\<close> and \<^verbatim>\<open>%d\<close>
  skip white space first; \<^verbatim>\<open>%s\<close> takes the characters up to the next white space, \<^verbatim>\<open>%d\<close> an
  optional sign and the decimal digits that follow, leaving the rest of the token unread.
  Scanning stops at the first directive that finds nothing to convert.

  The model returns the values assigned so far, in order. The program only compares the
  return value of \<^verbatim>\<open>sscanf\<close> with the number of its conversions, and that return value is the
  number of values assigned, or the negative \<^verbatim>\<open>EOF\<close> when the input ended before the first of
  them: the comparison holds exactly when the list has that length. A value too large for
  \<^verbatim>\<open>int\<close> and a token too long for its array are faults.
\<close>

datatype directive = Skip_s | White | Conv_d | Conv_s nat

datatype arg = Int_arg int | Str_arg string

fun int_of :: "arg \<Rightarrow> int" where
  "int_of (Int_arg i) = i"
| "int_of (Str_arg w) = 0"

fun str_of :: "arg \<Rightarrow> string" where
  "str_of (Str_arg w) = w"
| "str_of (Int_arg i) = []"

definition INT_MAX :: int where "INT_MAX = 2147483647"
definition INT_MIN :: int where "INT_MIN = - 2147483648"

definition skip_space :: "string \<Rightarrow> string" where
  "skip_space inp = dropWhile isspace inp"

definition scan_token :: "string \<Rightarrow> string \<times> string" where
  "scan_token inp = (takeWhile (\<lambda>c. \<not> isspace c) inp, dropWhile (\<lambda>c. \<not> isspace c) inp)"

definition digit_value :: "char \<Rightarrow> int" where
  "digit_value c = int (of_char c) - 48"

definition decimal :: "string \<Rightarrow> int" where
  "decimal ds = foldl (\<lambda>a c. 10 * a + digit_value c) 0 ds"

definition scan_int :: "string \<Rightarrow> (int \<times> string) option" where
  "scan_int inp =
     (let (negative, rest) =
            (case inp of
               [] \<Rightarrow> (False, [])
             | c # cs \<Rightarrow>
                 if c = CHR ''-'' then (True, cs)
                 else if c = CHR ''+'' then (False, cs)
                 else (False, inp));
          ds = takeWhile isdigit rest
      in if ds = [] then None
         else Some (if negative then - decimal ds else decimal ds, dropWhile isdigit rest))"

fun sscanf_from :: "string \<Rightarrow> directive list \<Rightarrow> arg list \<Rightarrow> fault + arg list" where
  "sscanf_from inp [] args = Inr args"
| "sscanf_from inp (White # ds) args = sscanf_from (skip_space inp) ds args"
| "sscanf_from inp (Skip_s # ds) args =
     (let (tok, rest) = scan_token (skip_space inp)
      in if tok = [] then Inr args else sscanf_from rest ds args)"
| "sscanf_from inp (Conv_s cap # ds) args =
     (let (tok, rest) = scan_token (skip_space inp)
      in if tok = [] then Inr args
         else if length tok \<ge> cap then Inl BufferOverflow
         else sscanf_from rest ds (args @ [Str_arg tok]))"
| "sscanf_from inp (Conv_d # ds) args =
     (case scan_int (skip_space inp) of
        None \<Rightarrow> Inr args
      | Some (v, rest) \<Rightarrow>
          if v < INT_MIN \<or> v > INT_MAX then Inl IntOutOfRange
          else sscanf_from rest ds (args @ [Int_arg v]))"

text \<open>\<^verbatim>\<open>sscanf\<close> scans the C string in the array it is given.\<close>

definition sscanf :: "string \<Rightarrow> directive list \<Rightarrow> fault + arg list" where
  "sscanf buf fmt = sscanf_from (c_string buf) fmt []"

subsection \<open>The command loop of \<^verbatim>\<open>main\<close>\<close>

text \<open>
  The format strings of \<^verbatim>\<open>main\<close>, with the sizes of the arrays their \<^verbatim>\<open>%s\<close> conversions
  write to: \<^verbatim>\<open>cmd[30]\<close>, \<^verbatim>\<open>name\<close> and \<^verbatim>\<open>faculty\<close> of 100 bytes, \<^verbatim>\<open>type\<close> of 20 and \<^verbatim>\<open>info\<close> of 100.
\<close>

definition fmt_cmd :: "directive list" where
  "fmt_cmd = [Conv_s 30]"

definition fmt_student :: "directive list" where
  "fmt_student =
     [Skip_s, White, Conv_d, White, Conv_s MAX_NAME_LENGTH, White, Conv_s MAX_FACULTY_LENGTH]"

definition fmt_exam :: "directive list" where
  "fmt_exam =
     [Skip_s, White, Conv_d, White, Conv_s MAX_TYPE_LENGTH, White, Conv_s MAX_NAME_LENGTH]"

definition fmt_3d :: "directive list" where
  "fmt_3d = [Skip_s, White, Conv_d, White, Conv_d, White, Conv_d]"

definition fmt_2d :: "directive list" where
  "fmt_2d = [Skip_s, White, Conv_d, White, Conv_d]"

definition fmt_1d :: "directive list" where
  "fmt_1d = [Skip_s, White, Conv_d]"

text \<open>
  One branch of the chain: \<^verbatim>\<open>if (sscanf(command, fmt, ...) == n) call(...); else
  fprintf(output, "Invalid ... command format\n");\<close>. The result \<open>Some\<close> continues the loop.
\<close>

definition branch ::
  "string \<Rightarrow> directive list \<Rightarrow> nat \<Rightarrow> (arg list \<Rightarrow> fault + (string \<times> store)) \<Rightarrow> string \<Rightarrow> store
     \<Rightarrow> fault + (string \<times> store) option" where
  "branch command fmt n call invalid s =
     (case sscanf command fmt of
        Inl f \<Rightarrow> Inl f
      | Inr a \<Rightarrow>
          if length a = n
          then (case call a of Inl f \<Rightarrow> Inl f | Inr r \<Rightarrow> Inr (Some r))
          else Inr (Some (invalid, s)))"

text \<open>
  The body of the \<^verbatim>\<open>while\<close> loop for one buffer filled by \<^verbatim>\<open>fgets\<close>. \<^verbatim>\<open>cmd\<close> is declared in the
  loop body without an initialiser and the result of the first \<^verbatim>\<open>sscanf\<close> is not tested: on a
  line with no token the comparisons read an array that was never written. \<open>None\<close> is the
  \<^verbatim>\<open>break\<close> of \<^verbatim>\<open>END\<close>.
\<close>

definition process_line :: "string \<Rightarrow> store \<Rightarrow> fault + (string \<times> store) option" where
  "process_line command s =
     (case sscanf command fmt_cmd of
        Inl f \<Rightarrow> Inl f
      | Inr a0 \<Rightarrow>
          if a0 = [] then Inl Uninitialised
          else
            let cmd = str_of (a0 ! 0) in
            if cmd = ''ADD_STUDENT'' then
              branch command fmt_student 3
                (\<lambda>a. add_student (int_of (a ! 0)) (str_of (a ! 1)) (str_of (a ! 2)) s)
                (''Invalid ADD_STUDENT command format'' @ newline) s
            else if cmd = ''ADD_EXAM'' then
              branch command fmt_exam 3
                (\<lambda>a. add_exam (int_of (a ! 0)) (str_of (a ! 1)) (str_of (a ! 2)) s)
                (''Invalid ADD_EXAM command format'' @ newline) s
            else if cmd = ''ADD_GRADE'' then
              branch command fmt_3d 3
                (\<lambda>a. add_grade (int_of (a ! 0)) (int_of (a ! 1)) (int_of (a ! 2)) s)
                (''Invalid ADD_GRADE command format'' @ newline) s
            else if cmd = ''UPDATE_EXAM'' then
              branch command fmt_exam 3
                (\<lambda>a. update_exam (int_of (a ! 0)) (str_of (a ! 1)) (str_of (a ! 2)) s)
                (''Invalid UPDATE_EXAM command format'' @ newline) s
            else if cmd = ''UPDATE_GRADE'' then
              branch command fmt_3d 3
                (\<lambda>a. Inr (update_grade (int_of (a ! 0)) (int_of (a ! 1)) (int_of (a ! 2)) s))
                (''Invalid UPDATE_GRADE command format'' @ newline) s
            else if cmd = ''DELETE_STUDENT'' then
              branch command fmt_1d 1
                (\<lambda>a. Inr (delete_student (int_of (a ! 0)) s))
                (''Invalid DELETE_STUDENT command format'' @ newline) s
            else if cmd = ''SEARCH_STUDENT'' then
              branch command fmt_1d 1
                (\<lambda>a. Inr (search_student (int_of (a ! 0)) s, s))
                (''Invalid SEARCH_STUDENT command format'' @ newline) s
            else if cmd = ''SEARCH_GRADE'' then
              branch command fmt_2d 2
                (\<lambda>a. Inr (search_grade (int_of (a ! 0)) (int_of (a ! 1)) s, s))
                (''Invalid SEARCH_GRADE command format'' @ newline) s
            else if cmd = ''LIST_ALL_STUDENTS'' then Inr (Some (list_all_students s, s))
            else if cmd = ''END'' then Inr None
            else Inr (Some (''Unknown command: '' @ cmd @ newline, s)))"

text \<open>
  The \<^verbatim>\<open>while\<close> loop over the buffers \<^verbatim>\<open>fgets\<close> delivers, in order. The result is everything
  written to \<^verbatim>\<open>output\<close> and the final store.
\<close>

fun main_loop :: "string list \<Rightarrow> store \<Rightarrow> fault + (string \<times> store)" where
  "main_loop [] s = Inr ([], s)"
| "main_loop (command # rest) s =
     (case process_line command s of
        Inl f \<Rightarrow> Inl f
      | Inr None \<Rightarrow> Inr ([], s)
      | Inr (Some (out, s')) \<Rightarrow>
          (case main_loop rest s' of
             Inl f \<Rightarrow> Inl f
           | Inr (out', s'') \<Rightarrow> Inr (out @ out', s'')))"

text \<open>
  \<^verbatim>\<open>fgets(command, sizeof(command), input)\<close> takes the characters up to and including the next
  newline, but at most \<^verbatim>\<open>MAX_COMMAND_LENGTH - 1\<close> of them, so a longer line arrives in pieces.
\<close>

definition fgets :: "nat \<Rightarrow> string \<Rightarrow> string" where
  "fgets n inp =
     take (n - 1)
       (case dropWhile (\<lambda>c. c \<noteq> CHR 0x0A) inp of
          [] \<Rightarrow> inp
        | c # cs \<Rightarrow> takeWhile (\<lambda>c. c \<noteq> CHR 0x0A) inp @ [c])"

function fgets_all :: "nat \<Rightarrow> string \<Rightarrow> string list" where
  "fgets_all n inp =
     (if inp = [] \<or> n \<le> 1 then []
      else fgets n inp # fgets_all n (drop (length (fgets n inp)) inp))"
  by pat_completeness auto
termination
proof -
  have "0 < length (fgets n inp)" if "inp \<noteq> []" "\<not> n \<le> 1" for n inp
    using that by (cases inp) (auto simp: fgets_def split: list.splits if_splits)
  then show ?thesis
    by (relation "measure (\<lambda>(n, inp). length inp)") (auto simp: Suc_le_eq)
qed

declare fgets_all.simps [simp del]

text \<open>
  \<^verbatim>\<open>main\<close> once both files are open, on the contents of \<^verbatim>\<open>input.txt\<close>: what \<^verbatim>\<open>output.txt\<close> holds
  at the end.
\<close>

definition main :: "string \<Rightarrow> fault + string" where
  "main inp =
     (case main_loop (fgets_all MAX_COMMAND_LENGTH inp) init_store of
        Inl f \<Rightarrow> Inl f
      | Inr (out, s) \<Rightarrow> Inr out)"

section \<open>Notions for stating the properties\<close>

subsection \<open>Well-formed stores and their live entries\<close>

text \<open>
  A store of the C program has arrays of the declared sizes, and no counter beyond its
  array. The entries below a counter are the ones the program reads.
\<close>

definition valid_store :: "store \<Rightarrow> bool" where
  "valid_store s \<longleftrightarrow>
     length (students s) = MAX_STUDENTS \<and> length (exams s) = MAX_EXAMS \<and>
     length (grades s) = MAX_GRADES \<and>
     student_count s \<le> MAX_STUDENTS \<and> exam_count s \<le> MAX_EXAMS \<and> grade_count s \<le> MAX_GRADES"

definition live_students :: "store \<Rightarrow> Student list" where
  "live_students s = take (student_count s) (students s)"

definition live_exams :: "store \<Rightarrow> Exam list" where
  "live_exams s = take (exam_count s) (exams s)"

definition live_grades :: "store \<Rightarrow> Grade list" where
  "live_grades s = take (grade_count s) (grades s)"

text \<open>
  The shifting loop of \<^verbatim>\<open>delete_student\<close> on a list alone: both of its instances are this
  function on the array they move (lemmas \<open>shift_grades_eq\<close> and \<open>shift_students_eq\<close>).
\<close>

function shift_left :: "'a list \<Rightarrow> nat \<Rightarrow> nat \<Rightarrow> 'a list" where
  "shift_left xs j n = (if j < n - 1 then shift_left (xs[j := xs ! (j + 1)]) (j + 1) n else xs)"
  by pat_completeness auto
termination
  by (relation "measure (\<lambda>(xs, j, n). n - j)") auto

declare shift_left.simps [simp del]

text \<open>
  The invariants of the data model: every grade refers to a live student and a live exam,
  and no id occurs twice among the live students or among the live exams.
\<close>

definition refs_ok :: "store \<Rightarrow> bool" where
  "refs_ok s \<longleftrightarrow>
     (\<forall>g \<in> set (live_grades s).
        Grade_student_id g \<in> Student_id ` set (live_students s) \<and>
        Grade_exam_id g \<in> Exam_id ` set (live_exams s))"

definition unique_ids :: "store \<Rightarrow> bool" where
  "unique_ids s \<longleftrightarrow>
     distinct (map Student_id (live_students s)) \<and> distinct (map Exam_id (live_exams s))"

definition invariant :: "store \<Rightarrow> bool" where
  "invariant s \<longleftrightarrow> valid_store s \<and> unique_ids s \<and> refs_ok s"

subsection \<open>Sequences of operations\<close>

text \<open>
  A call of one of the nine operations of the record store, and the effect of a sequence of
  calls: each runs in the store the previous one left. A store is reachable when some
  sequence of calls, none of them faulting, leads to it from the initial store.
\<close>

datatype call =
    Add_student int string string
  | Add_exam int string string
  | Add_grade int int int
  | Update_exam int string string
  | Update_grade int int int
  | Delete_student int
  | Search_student int
  | Search_grade int int
  | List_all_students

fun exec :: "call \<Rightarrow> store \<Rightarrow> fault + (string \<times> store)" where
  "exec (Add_student id' name faculty) s = add_student id' name faculty s"
| "exec (Add_exam id' type info) s = add_exam id' type info s"
| "exec (Add_grade exam_id student_id grade_value) s = add_grade exam_id student_id grade_value s"
| "exec (Update_exam id' new_type new_info) s = update_exam id' new_type new_info s"
| "exec (Update_grade exam_id student_id new_grade) s = Inr (update_grade exam_id student_id new_grade s)"
| "exec (Delete_student id') s = Inr (delete_student id' s)"
| "exec (Search_student id') s = Inr (search_student id' s, s)"
| "exec (Search_grade exam_id student_id) s = Inr (search_grade exam_id student_id s, s)"
| "exec List_all_students s = Inr (list_all_students s, s)"

fun run_calls :: "call list \<Rightarrow> store \<Rightarrow> fault + (string \<times> store)" where
  "run_calls [] s = Inr ([], s)"
| "run_calls (c # cs) s =
     (case exec c s of
        Inl f \<Rightarrow> Inl f
      | Inr (out, s') \<Rightarrow>
          (case run_calls cs s' of
             Inl f \<Rightarrow> Inl f
           | Inr (out', s'') \<Rightarrow> Inr (out @ out', s'')))"

inductive reachable :: "store \<Rightarrow> bool" where
  init: "reachable init_store"
| step: "reachable s \<Longrightarrow> exec c s = Inr (out, s') \<Longrightarrow> reachable s'"

subsection \<open>A store for the examples\<close>

text \<open>
  Two students, one exam, three grades (two of them for the same exam and student), as
  five \<^verbatim>\<open>ADD_\<close> commands leave them.
\<close>

definition example_store :: store where
  "example_store =
     init_store
       \<lparr>students := (students init_store)
          [0 := \<lparr>Student_id = 1, Student_name = ''John'', Student_faculty = ''ComputerScience''\<rparr>,
           1 := \<lparr>Student_id = 3, Student_name = ''Ann'', Student_faculty = ''DataScience''\<rparr>],
        exams := (exams init_store)
          [0 := \<lparr>Exam_id = 10, Exam_type = ''WRITTEN'', Exam_info = ''Midterm''\<rparr>],
        grades := (grades init_store)
          [0 := \<lparr>Grade_exam_id = 10, Grade_student_id = 1, Grade_grade = 85\<rparr>,
           1 := \<lparr>Grade_exam_id = 10, Grade_student_id = 3, Grade_grade = 77\<rparr>,
           2 := \<lparr>Grade_exam_id = 10, Grade_student_id = 1, Grade_grade = 60\<rparr>],
        student_count := 2, exam_count := 1, grade_count := 3\<rparr>"

text \<open>
  A store with all three arrays full: students and exams with the ids 0 to 99, and one
  grade for every pair of them.
\<close>

definition full_store :: store where
  "full_store =
     \<lparr>students = map (\<lambda>i. \<lparr>Student_id = int i, Student_name = ''A'',
                               Student_faculty = ''DataScience''\<rparr>) [0..<100],
      exams = map (\<lambda>i. \<lparr>Exam_id = int i, Exam_type = ''WRITTEN'', Exam_info = ''x''\<rparr>) [0..<100],
      grades = map (\<lambda>k. \<lparr>Grade_exam_id = int (k div 100), Grade_student_id = int (k mod 100),
                             Grade_grade = 50\<rparr>) [0..<10000],
      student_count = 100, exam_count = 100, grade_count = 10000\<rparr>"

subsection \<open>Lines, tokens and responses\<close>

text \<open>
  The tokens of a string are its maximal runs of characters that are not white space. The
  verb of a buffer is the leading token of the C string it holds.
\<close>

function tokens :: "string \<Rightarrow> string list" where
  "tokens inp =
     (if skip_space inp = [] then []
      else fst (scan_token (skip_space inp)) # tokens (snd (scan_token (skip_space inp))))"
  by pat_completeness auto
termination
proof (relation "measure length")
  show "wf (measure length)" by simp
next
  fix inp :: string
  assume ne: "skip_space inp \<noteq> []"
  have "\<not> isspace (hd (skip_space inp))"
    using ne unfolding skip_space_def by (rule hd_dropWhile)
  then have "takeWhile (\<lambda>c. \<not> isspace c) (skip_space inp) \<noteq> []"
    using ne by (cases "skip_space inp") auto
  then have "length (dropWhile (\<lambda>c. \<not> isspace c) (skip_space inp)) < length (skip_space inp)"
    by (metis append_self_conv2 takeWhile_dropWhile_id length_append length_greater_0_conv
        less_add_same_cancel2)
  also have "length (skip_space inp) \<le> length inp"
    by (simp add: skip_space_def length_dropWhile_le)
  finally show "(snd (scan_token (skip_space inp)), inp) \<in> measure length"
    by (simp add: scan_token_def)
qed

declare tokens.simps [simp del]

definition leading_token :: "string \<Rightarrow> string option" where
  "leading_token command = (case tokens command of [] \<Rightarrow> None | t # ts \<Rightarrow> Some t)"

definition verb :: "string \<Rightarrow> string option" where
  "verb command = leading_token (c_string command)"

text \<open>
  The lines of a text, each with the newline that ends it; the last line may lack one.
\<close>

function lines_of :: "string \<Rightarrow> string list" where
  "lines_of inp =
     (if inp = [] then []
      else (case dropWhile (\<lambda>c. c \<noteq> CHR 0x0A) inp of
              [] \<Rightarrow> [inp]
            | c # cs \<Rightarrow> (takeWhile (\<lambda>c. c \<noteq> CHR 0x0A) inp @ [c]) # lines_of cs))"
  by pat_completeness auto
termination
proof (relation "measure length")
  show "wf (measure length)" by simp
next
  fix inp :: string and c cs
  assume "dropWhile (\<lambda>c. c \<noteq> CHR 0x0A) inp = c # cs"
  then have "length (c # cs) \<le> length inp"
    by (metis length_dropWhile_le)
  then show "(cs, inp) \<in> measure length" by simp
qed

declare lines_of.simps [simp del]

text \<open>
  The response of one command line is what the loop body prints for it, with the store it
  leaves; the responses of a list of lines are concatenated, each line running in the store
  the previous one left. Neither knows of \<^verbatim>\<open>END\<close>: for that line the response is empty.
\<close>

definition response :: "string \<Rightarrow> store \<Rightarrow> fault + (string \<times> store)" where
  "response command s =
     (case process_line command s of
        Inl f \<Rightarrow> Inl f
      | Inr None \<Rightarrow> Inr ([], s)
      | Inr (Some r) \<Rightarrow> Inr r)"

text \<open>What a run has written, without the store it ends in.\<close>

definition output_of :: "fault + (string \<times> store) \<Rightarrow> fault + string" where
  "output_of r = (case r of Inl f \<Rightarrow> Inl f | Inr (out, s) \<Rightarrow> Inr out)"

text \<open>
  An input of two lines, the first of them longer than the command buffer: \<^verbatim>\<open>FOO\<close>, 252
  spaces and \<^verbatim>\<open>END\<close>; the second is \<^verbatim>\<open>BAR\<close>.
\<close>

definition long_line :: string where
  "long_line = ''FOO'' @ replicate 252 CHR '' '' @ ''END'' @ newline"

definition long_input :: string where
  "long_input = long_line @ ''BAR'' @ newline"

fun concat_responses :: "string list \<Rightarrow> store \<Rightarrow> fault + (string \<times> store)" where
  "concat_responses [] s = Inr ([], s)"
| "concat_responses (command # rest) s =
     (case response command s of
        Inl f \<Rightarrow> Inl f
      | Inr (out, s') \<Rightarrow>
          (case concat_responses rest s' of
             Inl f \<Rightarrow> Inl f
           | Inr (out', s'') \<Rightarrow> Inr (out @ out', s'')))"

text \<open>
  The eight verbs that take arguments, each with the format \<^verbatim>\<open>main\<close> scans its line with and
  the number of values that scan must assign.
\<close>

definition command_formats :: "(string \<times> directive list \<times> nat) list" where
  "command_formats =
     [(''ADD_STUDENT'', fmt_student, 3), (''ADD_EXAM'', fmt_exam, 3), (''ADD_GRADE'', fmt_3d, 3),
      (''UPDATE_EXAM'', fmt_exam, 3), (''UPDATE_GRADE'', fmt_3d, 3),
      (''DELETE_STUDENT'', fmt_1d, 1), (''SEARCH_STUDENT'', fmt_1d, 1),
      (''SEARCH_GRADE'', fmt_2d, 2)]"

text \<open>
  The stores on the way to it: the first \<open>a\<close> students, \<open>b\<close> exams and \<open>c\<close> grades of the full
  store in arrays that are otherwise still zero.
\<close>

definition filled_store :: "nat \<Rightarrow> nat \<Rightarrow> nat \<Rightarrow> store" where
  "filled_store a b c =
     \<lparr>students = map (\<lambda>i. \<lparr>Student_id = int i, Student_name = ''A'',
                               Student_faculty = ''DataScience''\<rparr>) [0..<a]
                   @ replicate (MAX_STUDENTS - a) zero_Student,
      exams = map (\<lambda>i. \<lparr>Exam_id = int i, Exam_type = ''WRITTEN'', Exam_info = ''x''\<rparr>) [0..<b]
                @ replicate (MAX_EXAMS - b) zero_Exam,
      grades = map (\<lambda>k. \<lparr>Grade_exam_id = int (k div 100), Grade_student_id = int (k mod 100),
                             Grade_grade = 50\<rparr>) [0..<c]
                 @ replicate (MAX_GRADES - c) zero_Grade,
      student_count = a, exam_count = b, grade_count = c\<rparr>"

subsection \<open>What a scan can assign\<close>

text \<open>
  A value fits a conversion when that conversion can have assigned it: an \<^verbatim>\<open>int\<close> for \<^verbatim>\<open>%d\<close>, a
  non-empty string without white space that fits the destination for \<^verbatim>\<open>%s\<close>. The conversions
  of a format are its directives that assign.
\<close>

fun fits :: "directive \<Rightarrow> arg \<Rightarrow> bool" where
  "fits Conv_d (Int_arg i) = (INT_MIN \<le> i \<and> i \<le> INT_MAX)"
| "fits (Conv_s cap) (Str_arg w) = (w \<noteq> [] \<and> length w < cap \<and> (\<forall>c \<in> set w. \<not> isspace c))"
| "fits d a = False"

definition conversions :: "directive list \<Rightarrow> directive list" where
  "conversions fmt = filter (\<lambda>d. d \<noteq> Skip_s \<and> d \<noteq> White) fmt"

section \<open>Lemmas about the operations\<close>

subsection \<open>Lookup\<close>

lemma find_student_from_None:
  "find_student_from s x i = None \<longleftrightarrow>
     (\<forall>j. i \<le> j \<and> j < student_count s \<longrightarrow> Student_id (students s ! j) \<noteq> x)"
proof (induction s x i rule: find_student_from.induct)
  case (1 s x i)
  show ?case
  proof (cases "i < student_count s \<and> Student_id (students s ! i) \<noteq> x")
    case True
    then have "find_student_from s x i = find_student_from s x (i + 1)"
      by (subst find_student_from.simps) simp
    moreover have "(\<forall>j. i \<le> j \<and> j < student_count s \<longrightarrow> Student_id (students s ! j) \<noteq> x) \<longleftrightarrow>
        (\<forall>j. i + 1 \<le> j \<and> j < student_count s \<longrightarrow> Student_id (students s ! j) \<noteq> x)"
      using True by (metis Suc_eq_plus1 Suc_leI le_eq_less_or_eq Suc_leD)
    ultimately show ?thesis using 1 True by simp
  next
    case False
    then show ?thesis
      by (subst find_student_from.simps) auto
  qed
qed

lemma find_student_from_Some:
  "find_student_from s x i = Some k \<longleftrightarrow>
     (i \<le> k \<and> k < student_count s \<and> Student_id (students s ! k) = x \<and>
      (\<forall>j. i \<le> j \<and> j < k \<longrightarrow> Student_id (students s ! j) \<noteq> x))"
proof (induction s x i rule: find_student_from.induct)
  case (1 s x i)
  show ?case
  proof (cases "i < student_count s")
    case False
    then show ?thesis by (subst find_student_from.simps) auto
  next
    case lt: True
    show ?thesis
    proof (cases "Student_id (students s ! i) = x")
      case True
      then have "find_student_from s x i = Some i"
        using lt by (subst find_student_from.simps) simp
      moreover have "(i \<le> k \<and> k < student_count s \<and> Student_id (students s ! k) = x \<and>
          (\<forall>j. i \<le> j \<and> j < k \<longrightarrow> Student_id (students s ! j) \<noteq> x)) \<longleftrightarrow> k = i"
        using True lt by (metis le_eq_less_or_eq le_refl not_less)
      ultimately show ?thesis by auto
    next
      case False
      then have "find_student_from s x i = find_student_from s x (i + 1)"
        using lt by (subst find_student_from.simps) simp
      moreover have "(i \<le> k \<and> k < student_count s \<and> Student_id (students s ! k) = x \<and>
          (\<forall>j. i \<le> j \<and> j < k \<longrightarrow> Student_id (students s ! j) \<noteq> x)) \<longleftrightarrow>
         (i + 1 \<le> k \<and> k < student_count s \<and> Student_id (students s ! k) = x \<and>
          (\<forall>j. i + 1 \<le> j \<and> j < k \<longrightarrow> Student_id (students s ! j) \<noteq> x))"
        using False by (metis Suc_eq_plus1 Suc_leI le_eq_less_or_eq Suc_leD)
      ultimately show ?thesis using 1 lt False by simp
    qed
  qed
qed

lemma find_exam_from_None:
  "find_exam_from s x i = None \<longleftrightarrow>
     (\<forall>j. i \<le> j \<and> j < exam_count s \<longrightarrow> Exam_id (exams s ! j) \<noteq> x)"
proof (induction s x i rule: find_exam_from.induct)
  case (1 s x i)
  show ?case
  proof (cases "i < exam_count s \<and> Exam_id (exams s ! i) \<noteq> x")
    case True
    then have "find_exam_from s x i = find_exam_from s x (i + 1)"
      by (subst find_exam_from.simps) simp
    moreover have "(\<forall>j. i \<le> j \<and> j < exam_count s \<longrightarrow> Exam_id (exams s ! j) \<noteq> x) \<longleftrightarrow>
        (\<forall>j. i + 1 \<le> j \<and> j < exam_count s \<longrightarrow> Exam_id (exams s ! j) \<noteq> x)"
      using True by (metis Suc_eq_plus1 Suc_leI le_eq_less_or_eq Suc_leD)
    ultimately show ?thesis using 1 True by simp
  next
    case False
    then show ?thesis
      by (subst find_exam_from.simps) auto
  qed
qed

lemma find_exam_from_Some:
  "find_exam_from s x i = Some k \<longleftrightarrow>
     (i \<le> k \<and> k < exam_count s \<and> Exam_id (exams s ! k) = x \<and>
      (\<forall>j. i \<le> j \<and> j < k \<longrightarrow> Exam_id (exams s ! j) \<noteq> x))"
proof (induction s x i rule: find_exam_from.induct)
  case (1 s x i)
  show ?case
  proof (cases "i < exam_count s")
    case False
    then show ?thesis by (subst find_exam_from.simps) auto
  next
    case lt: True
    show ?thesis
    proof (cases "Exam_id (exams s ! i) = x")
      case True
      then have "find_exam_from s x i = Some i"
        using lt by (subst find_exam_from.simps) simp
      moreover have "(i \<le> k \<and> k < exam_count s \<and> Exam_id (exams s ! k) = x \<and>
          (\<forall>j. i \<le> j \<and> j < k \<longrightarrow> Exam_id (exams s ! j) \<noteq> x)) \<longleftrightarrow> k = i"
        using True lt by (metis le_eq_less_or_eq le_refl not_less)
      ultimately show ?thesis by auto
    next
      case False
      then have "find_exam_from s x i = find_exam_from s x (i + 1)"
        using lt by (subst find_exam_from.simps) simp
      moreover have "(i \<le> k \<and> k < exam_count s \<and> Exam_id (exams s ! k) = x \<and>
          (\<forall>j. i \<le> j \<and> j < k \<longrightarrow> Exam_id (exams s ! j) \<noteq> x)) \<longleftrightarrow>
         (i + 1 \<le> k \<and> k < exam_count s \<and> Exam_id (exams s ! k) = x \<and>
          (\<forall>j. i + 1 \<le> j \<and> j < k \<longrightarrow> Exam_id (exams s ! j) \<noteq> x))"
        using False by (metis Suc_eq_plus1 Suc_leI le_eq_less_or_eq Suc_leD)
      ultimately show ?thesis using 1 lt False by simp
    qed
  qed
qed

lemma find_student_None:
  "find_student s x = None \<longleftrightarrow> (\<forall>j < student_count s. Student_id (students s ! j) \<noteq> x)"
  by (simp add: find_student_def find_student_from_None)

lemma find_student_Some:
  "find_student s x = Some k \<longleftrightarrow>
     (k < student_count s \<and> Student_id (students s ! k) = x \<and>
      (\<forall>j < k. Student_id (students s ! j) \<noteq> x))"
  by (simp add: find_student_def find_student_from_Some)

lemma find_exam_None:
  "find_exam s x = None \<longleftrightarrow> (\<forall>j < exam_count s. Exam_id (exams s ! j) \<noteq> x)"
  by (simp add: find_exam_def find_exam_from_None)

lemma find_exam_Some:
  "find_exam s x = Some k \<longleftrightarrow>
     (k < exam_count s \<and> Exam_id (exams s ! k) = x \<and>
      (\<forall>j < k. Exam_id (exams s ! j) \<noteq> x))"
  by (simp add: find_exam_def find_exam_from_Some)

lemma find_student_cong:
  assumes "student_count s' = student_count s"
    and "\<And>j. j < student_count s \<Longrightarrow> Student_id (students s' ! j) = Student_id (students s ! j)"
  shows "find_student s' x = find_student s x"
proof (cases "find_student s x")
  case None
  then have "find_student s' x = None"
    using assms by (simp add: find_student_None)
  with None show ?thesis by simp
next
  case (Some k)
  then have "find_student s' x = Some k"
    using assms by (simp add: find_student_Some)
  with Some show ?thesis by simp
qed

lemma find_exam_cong:
  assumes "exam_count s' = exam_count s"
    and "\<And>j. j < exam_count s \<Longrightarrow> Exam_id (exams s' ! j) = Exam_id (exams s ! j)"
  shows "find_exam s' x = find_exam s x"
proof (cases "find_exam s x")
  case None
  then have "find_exam s' x = None"
    using assms by (simp add: find_exam_None)
  with None show ?thesis by simp
next
  case (Some k)
  then have "find_exam s' x = Some k"
    using assms by (simp add: find_exam_Some)
  with Some show ?thesis by simp
qed

subsection \<open>The shifting loops\<close>

lemma length_shift_left [simp]: "length (shift_left xs j n) = length xs"
  by (induction xs j n rule: shift_left.induct) (subst shift_left.simps, simp)

lemma nth_shift_left:
  "n \<le> length xs \<Longrightarrow>
   shift_left xs j n ! k = (if j \<le> k \<and> k < n - 1 then xs ! (k + 1) else xs ! k)"
proof (induction xs j n arbitrary: k rule: shift_left.induct)
  case (1 xs j n)
  show ?case
  proof (cases "j < n - 1")
    case False
    then show ?thesis by (subst shift_left.simps) auto
  next
    case True
    have eq: "shift_left xs j n = shift_left (xs[j := xs ! (j + 1)]) (j + 1) n"
      using True by (subst shift_left.simps) simp
    have "shift_left (xs[j := xs ! (j + 1)]) (j + 1) n ! k =
        (if j + 1 \<le> k \<and> k < n - 1 then xs[j := xs ! (j + 1)] ! (k + 1) else xs[j := xs ! (j + 1)] ! k)"
      using 1 True by simp
    then show ?thesis
      using True "1.prems" by (auto simp: eq nth_list_update)
  qed
qed

lemma take_shift_left:
  assumes "n \<le> length xs" "j < n"
  shows "take (n - 1) (shift_left xs j n) = take j xs @ drop (j + 1) (take n xs)"
proof (rule nth_equalityI)
  show "length (take (n - 1) (shift_left xs j n)) = length (take j xs @ drop (j + 1) (take n xs))"
    using assms by simp
next
  fix k assume "k < length (take (n - 1) (shift_left xs j n))"
  then have k: "k < n - 1" by simp
  show "take (n - 1) (shift_left xs j n) ! k = (take j xs @ drop (j + 1) (take n xs)) ! k"
    using assms k by (auto simp: nth_shift_left nth_append)
qed

lemma shift_grades_eq:
  "shift_grades j s = s\<lparr>grades := shift_left (grades s) j (grade_count s)\<rparr>"
proof (induction j s rule: shift_grades.induct)
  case (1 j s)
  show ?case
  proof (cases "j < grade_count s - 1")
    case True
    then show ?thesis
      using 1 by (subst shift_grades.simps, subst shift_left.simps) simp
  next
    case False
    then show ?thesis
      by (subst shift_grades.simps, subst shift_left.simps) simp
  qed
qed

lemma shift_students_eq:
  "shift_students j s = s\<lparr>students := shift_left (students s) j (student_count s)\<rparr>"
proof (induction j s rule: shift_students.induct)
  case (1 j s)
  show ?case
  proof (cases "j < student_count s - 1")
    case True
    then show ?thesis
      using 1 by (subst shift_students.simps, subst shift_left.simps) simp
  next
    case False
    then show ?thesis
      by (subst shift_students.simps, subst shift_left.simps) simp
  qed
qed

lemma delete_grades_from_frame:
  "students (delete_grades_from x i s) = students s \<and>
   exams (delete_grades_from x i s) = exams s \<and>
   student_count (delete_grades_from x i s) = student_count s \<and>
   exam_count (delete_grades_from x i s) = exam_count s \<and>
   length (grades (delete_grades_from x i s)) = length (grades s) \<and>
   grade_count (delete_grades_from x i s) \<le> grade_count s"
proof (induction x i s rule: delete_grades_from.induct)
  case (1 x i s)
  show ?case
  proof (cases "i < grade_count s")
    case False
    then show ?thesis by (subst (1 2 3 4 5 6) delete_grades_from.simps) simp
  next
    case lt: True
    show ?thesis
    proof (cases "Grade_student_id (grades s ! i) = x")
      case True
      define s1 where "s1 = (shift_grades i s)\<lparr>grade_count := grade_count (shift_grades i s) - 1\<rparr>"
      have eq: "delete_grades_from x i s = delete_grades_from x i s1"
        using lt True by (subst delete_grades_from.simps) (simp add: s1_def Let_def)
      have "students s1 = students s" "exams s1 = exams s" "student_count s1 = student_count s"
        "exam_count s1 = exam_count s" "length (grades s1) = length (grades s)"
        "grade_count s1 \<le> grade_count s"
        by (simp_all add: s1_def shift_grades_eq)
      moreover note "1.IH"(1)[OF lt True refl, folded s1_def]
      ultimately show ?thesis unfolding eq by simp
    next
      case False
      have eq: "delete_grades_from x i s = delete_grades_from x (i + 1) s"
        using lt False by (subst delete_grades_from.simps) simp
      show ?thesis unfolding eq using "1.IH"(2)[OF lt False] by simp
    qed
  qed
qed

lemma delete_grades_from_live:
  assumes "grade_count s \<le> length (grades s)" "i \<le> grade_count s"
  shows "live_grades (delete_grades_from x i s) =
           take i (live_grades s) @ filter (\<lambda>g. Grade_student_id g \<noteq> x) (drop i (live_grades s))"
  using assms
proof (induction x i s rule: delete_grades_from.induct)
  case (1 x i s)
  let ?L = "live_grades s"
  have len: "length ?L = grade_count s"
    using "1.prems" by (simp add: live_grades_def)
  show ?case
  proof (cases "i < grade_count s")
    case False
    then have "i = grade_count s" using "1.prems" by simp
    then show ?thesis
      using len by (subst delete_grades_from.simps) simp
  next
    case lt: True
    have nth: "?L ! i = grades s ! i"
      using lt by (simp add: live_grades_def)
    have dropi: "drop i ?L = ?L ! i # drop (i + 1) ?L"
      using lt len by (simp add: Cons_nth_drop_Suc)
    show ?thesis
    proof (cases "Grade_student_id (grades s ! i) = x")
      case True
      define s1 where "s1 = (shift_grades i s)\<lparr>grade_count := grade_count (shift_grades i s) - 1\<rparr>"
      have eq: "delete_grades_from x i s = delete_grades_from x i s1"
        using lt True by (subst delete_grades_from.simps) (simp add: s1_def Let_def)
      have live1: "live_grades s1 = take i ?L @ drop (i + 1) ?L"
        using take_shift_left[of "grade_count s" "grades s" i] lt "1.prems"
        by (simp add: s1_def shift_grades_eq live_grades_def)
      have c1: "grade_count s1 \<le> length (grades s1)" "i \<le> grade_count s1"
        using lt "1.prems" by (simp_all add: s1_def shift_grades_eq)
      have "live_grades (delete_grades_from x i s1) =
          take i (live_grades s1) @ filter (\<lambda>g. Grade_student_id g \<noteq> x) (drop i (live_grades s1))"
        using "1.IH"(1)[OF lt True refl, folded s1_def] c1 by simp
      also have "\<dots> = take i ?L @ filter (\<lambda>g. Grade_student_id g \<noteq> x) (drop (i + 1) ?L)"
        using lt len by (simp add: live1 min_def)
      also have "\<dots> = take i ?L @ filter (\<lambda>g. Grade_student_id g \<noteq> x) (drop i ?L)"
        using True nth by (subst dropi) simp
      finally show ?thesis unfolding eq .
    next
      case False
      have eq: "delete_grades_from x i s = delete_grades_from x (i + 1) s"
        using lt False by (subst delete_grades_from.simps) simp
      have "live_grades (delete_grades_from x (i + 1) s) =
          take (i + 1) ?L @ filter (\<lambda>g. Grade_student_id g \<noteq> x) (drop (i + 1) ?L)"
        using "1.IH"(2)[OF lt False] "1.prems" lt by simp
      also have "\<dots> = take i ?L @ filter (\<lambda>g. Grade_student_id g \<noteq> x) (drop i ?L)"
        using False nth lt len by (subst dropi) (simp add: take_Suc_conv_app_nth)
      finally show ?thesis unfolding eq .
    qed
  qed
qed

subsection \<open>What a call that returns has done\<close>

lemma add_student_Inr:
  assumes "add_student id' name faculty s = Inr (out, s')"
  shows "s' = s \<or>
     (find_student s id' = None \<and> student_count s < MAX_STUDENTS \<and>
      out = ''Student: '' @ fmt_d id' @ '' added'' @ newline \<and>
      s' = s\<lparr>students := (students s)[student_count s :=
                 \<lparr>Student_id = id', Student_name = name, Student_faculty = faculty\<rparr>],
             student_count := student_count s + 1\<rparr>)"
  using assms by (auto simp: add_student_def strcpy_def split: if_splits)

lemma add_exam_Inr:
  assumes "add_exam id' type info s = Inr (out, s')"
  shows "s' = s \<or>
     (find_exam s id' = None \<and> exam_count s < MAX_EXAMS \<and>
      out = ''Exam: '' @ fmt_d id' @ '' added'' @ newline \<and>
      s' = s\<lparr>exams := (exams s)[exam_count s :=
                 \<lparr>Exam_id = id', Exam_type = type, Exam_info = info\<rparr>],
             exam_count := exam_count s + 1\<rparr>)"
  using assms by (auto simp: add_exam_def strcpy_def split: if_splits)

lemma add_grade_Inr:
  assumes "add_grade exam_id student_id grade_value s = Inr (out, s')"
  shows "s' = s \<or>
     (find_student s student_id \<noteq> None \<and> find_exam s exam_id \<noteq> None \<and>
      0 \<le> grade_value \<and> grade_value \<le> 100 \<and> grade_count s < MAX_GRADES \<and>
      s' = s\<lparr>grades := (grades s)[grade_count s :=
                 \<lparr>Grade_exam_id = exam_id, Grade_student_id = student_id,
                  Grade_grade = grade_value\<rparr>],
             grade_count := grade_count s + 1\<rparr>)"
  using assms by (auto simp: add_grade_def split: if_splits)

lemma update_exam_Inr:
  assumes "update_exam id' new_type new_info s = Inr (out, s')"
  shows "s' = s \<or>
     (\<exists>index. find_exam s id' = Some index \<and>
      s' = s\<lparr>exams := (exams s)[index :=
                 (exams s ! index)\<lparr>Exam_type := new_type, Exam_info := new_info\<rparr>]\<rparr>)"
  using assms by (auto simp: update_exam_def strcpy_def split: if_splits option.splits)

lemma update_grade_from_cases:
  "(\<exists>k. i \<le> k \<and> k < grade_count s \<and>
        Grade_exam_id (grades s ! k) = e \<and> Grade_student_id (grades s ! k) = st \<and>
        (\<forall>j. i \<le> j \<and> j < k \<longrightarrow>
             \<not> (Grade_exam_id (grades s ! j) = e \<and> Grade_student_id (grades s ! j) = st)) \<and>
        update_grade_from e st v s i =
          (''Grade '' @ fmt_d v @ '' updated for the student: '' @ fmt_d st @ newline,
           s\<lparr>grades := (grades s)[k := (grades s ! k)\<lparr>Grade_grade := v\<rparr>]\<rparr>)) \<or>
   ((\<forall>j. i \<le> j \<and> j < grade_count s \<longrightarrow>
          \<not> (Grade_exam_id (grades s ! j) = e \<and> Grade_student_id (grades s ! j) = st)) \<and>
    update_grade_from e st v s i = (''Student not found'' @ newline, s))"
proof (induction e st v s i rule: update_grade_from.induct)
  case (1 e st v s i)
  let ?m = "\<lambda>j. Grade_exam_id (grades s ! j) = e \<and> Grade_student_id (grades s ! j) = st"
  show ?case
  proof (cases "i < grade_count s")
    case False
    then have "update_grade_from e st v s i = (''Student not found'' @ newline, s)"
      by (subst update_grade_from.simps) simp
    with False show ?thesis by auto
  next
    case lt: True
    show ?thesis
    proof (cases "?m i")
      case True
      then have "update_grade_from e st v s i =
          (''Grade '' @ fmt_d v @ '' updated for the student: '' @ fmt_d st @ newline,
           s\<lparr>grades := (grades s)[i := (grades s ! i)\<lparr>Grade_grade := v\<rparr>]\<rparr>)"
        using lt by (subst update_grade_from.simps) simp
      with True lt show ?thesis
        by (intro disjI1 exI[of _ i]) auto
    next
      case False
      have eq: "update_grade_from e st v s i = update_grade_from e st v s (i + 1)"
        using lt False by (subst update_grade_from.simps) auto
      from "1.IH"[OF lt] False have IH: "(\<exists>k. i + 1 \<le> k \<and> k < grade_count s \<and> ?m k \<and>
          (\<forall>j. i + 1 \<le> j \<and> j < k \<longrightarrow> \<not> ?m j) \<and>
          update_grade_from e st v s (i + 1) =
            (''Grade '' @ fmt_d v @ '' updated for the student: '' @ fmt_d st @ newline,
             s\<lparr>grades := (grades s)[k := (grades s ! k)\<lparr>Grade_grade := v\<rparr>]\<rparr>)) \<or>
        ((\<forall>j. i + 1 \<le> j \<and> j < grade_count s \<longrightarrow> \<not> ?m j) \<and>
          update_grade_from e st v s (i + 1) = (''Student not found'' @ newline, s))"
        by blast
      have all: "(\<forall>j. i \<le> j \<and> j < n \<longrightarrow> \<not> ?m j) \<longleftrightarrow> (\<forall>j. i + 1 \<le> j \<and> j < n \<longrightarrow> \<not> ?m j)" for n
        using False by (metis Suc_eq_plus1 Suc_leI le_eq_less_or_eq Suc_leD)
      from IH show ?thesis
      proof
        assume "\<exists>k. i + 1 \<le> k \<and> k < grade_count s \<and> ?m k \<and>
          (\<forall>j. i + 1 \<le> j \<and> j < k \<longrightarrow> \<not> ?m j) \<and>
          update_grade_from e st v s (i + 1) =
            (''Grade '' @ fmt_d v @ '' updated for the student: '' @ fmt_d st @ newline,
             s\<lparr>grades := (grades s)[k := (grades s ! k)\<lparr>Grade_grade := v\<rparr>]\<rparr>)"
        then obtain k where k: "i + 1 \<le> k" "k < grade_count s" "?m k"
          "\<forall>j. i + 1 \<le> j \<and> j < k \<longrightarrow> \<not> ?m j"
          "update_grade_from e st v s (i + 1) =
            (''Grade '' @ fmt_d v @ '' updated for the student: '' @ fmt_d st @ newline,
             s\<lparr>grades := (grades s)[k := (grades s ! k)\<lparr>Grade_grade := v\<rparr>]\<rparr>)"
          by blast
        have "\<forall>j. i \<le> j \<and> j < k \<longrightarrow> \<not> ?m j"
          using k(4) all[of k] by blast
        with k show ?thesis
          unfolding eq by (intro disjI1 exI[of _ k]) auto
      next
        assume "(\<forall>j. i + 1 \<le> j \<and> j < grade_count s \<longrightarrow> \<not> ?m j) \<and>
          update_grade_from e st v s (i + 1) = (''Student not found'' @ newline, s)"
        then show ?thesis
          unfolding eq using all[of "grade_count s"] by blast
      qed
    qed
  qed
qed

subsection \<open>Lookup in terms of the live entries\<close>

lemma find_append_case:
  "find P (xs @ ys) = (case find P xs of None \<Rightarrow> find P ys | Some x \<Rightarrow> Some x)"
  by (induction xs) auto

lemma find_remove_nth:
  assumes "m < length L" "\<not> P (L ! m)"
  shows "find P (take m L @ drop (Suc m) L) = find P L"
proof -
  have "L = take m L @ L ! m # drop (Suc m) L"
    using assms(1) by (simp add: id_take_nth_drop)
  then have "find P L = find P (take m L @ L ! m # drop (Suc m) L)" by simp
  also have "\<dots> = find P (take m L @ drop (Suc m) L)"
    using assms(2) by (simp add: find_append_case split: option.splits)
  finally show ?thesis by simp
qed

lemma filter_remove_nth:
  assumes "distinct (map f L)" "m < length L"
  shows "filter (\<lambda>a. f a \<noteq> f (L ! m)) L = take m L @ drop (Suc m) L"
proof -
  have L: "L = take m L @ L ! m # drop (Suc m) L"
    using assms(2) by (simp add: id_take_nth_drop)
  have "distinct (map f (take m L @ L ! m # drop (Suc m) L))"
    using assms(1) L by simp
  then have notin: "f (L ! m) \<notin> f ` set (take m L)" "f (L ! m) \<notin> f ` set (drop (Suc m) L)"
    by auto
  have "filter (\<lambda>a. f a \<noteq> f (L ! m)) (take m L) = take m L"
    "filter (\<lambda>a. f a \<noteq> f (L ! m)) (drop (Suc m) L) = drop (Suc m) L"
    using notin by (simp_all add: filter_id_conv) (metis imageI)+
  then have "filter (\<lambda>a. f a \<noteq> f (L ! m)) (take m L @ L ! m # drop (Suc m) L) =
      take m L @ drop (Suc m) L"
    by simp
  with L show ?thesis by simp
qed

lemma live_lengths:
  "valid_store s \<Longrightarrow> length (live_students s) = student_count s"
  "valid_store s \<Longrightarrow> length (live_exams s) = exam_count s"
  "valid_store s \<Longrightarrow> length (live_grades s) = grade_count s"
  by (simp_all add: valid_store_def live_students_def live_exams_def live_grades_def)

lemma find_student_find:
  assumes "valid_store s"
  shows "map_option (\<lambda>k. students s ! k) (find_student s x) =
         find (\<lambda>st. Student_id st = x) (live_students s)"
proof (cases "find_student s x")
  case None
  then have "\<forall>j < student_count s. Student_id (students s ! j) \<noteq> x"
    by (simp add: find_student_None)
  then have "find (\<lambda>st. Student_id st = x) (live_students s) = None"
    using assms by (auto simp: find_None_iff in_set_conv_nth live_students_def valid_store_def)
  with None show ?thesis by simp
next
  case (Some k)
  then have k: "k < student_count s" "Student_id (students s ! k) = x"
    "\<forall>j < k. Student_id (students s ! j) \<noteq> x"
    by (simp_all add: find_student_Some)
  have "find (\<lambda>st. Student_id st = x) (live_students s) = Some (students s ! k)"
    unfolding find_Some_iff
    using k assms by (intro exI[of _ k]) (auto simp: live_students_def valid_store_def)
  with Some show ?thesis by simp
qed

lemma find_exam_find:
  assumes "valid_store s"
  shows "map_option (\<lambda>k. exams s ! k) (find_exam s x) =
         find (\<lambda>ex. Exam_id ex = x) (live_exams s)"
proof (cases "find_exam s x")
  case None
  then have "\<forall>j < exam_count s. Exam_id (exams s ! j) \<noteq> x"
    by (simp add: find_exam_None)
  then have "find (\<lambda>ex. Exam_id ex = x) (live_exams s) = None"
    using assms by (auto simp: find_None_iff in_set_conv_nth live_exams_def valid_store_def)
  with None show ?thesis by simp
next
  case (Some k)
  then have k: "k < exam_count s" "Exam_id (exams s ! k) = x"
    "\<forall>j < k. Exam_id (exams s ! j) \<noteq> x"
    by (simp_all add: find_exam_Some)
  have "find (\<lambda>ex. Exam_id ex = x) (live_exams s) = Some (exams s ! k)"
    unfolding find_Some_iff
    using k assms by (intro exI[of _ k]) (auto simp: live_exams_def valid_store_def)
  with Some show ?thesis by simp
qed

lemma find_student_None_live:
  assumes "valid_store s"
  shows "find_student s x = None \<longleftrightarrow> x \<notin> Student_id ` set (live_students s)"
proof -
  have "find_student s x = None \<longleftrightarrow> map_option (\<lambda>k. students s ! k) (find_student s x) = None"
    by simp
  also have "\<dots> \<longleftrightarrow> find (\<lambda>a. Student_id a = x) (live_students s) = None"
    by (simp only: find_student_find[OF assms])
  also have "\<dots> \<longleftrightarrow> x \<notin> Student_id ` set (live_students s)"
    by (auto simp: find_None_iff)
  finally show ?thesis .
qed

lemma find_exam_None_live:
  assumes "valid_store s"
  shows "find_exam s x = None \<longleftrightarrow> x \<notin> Exam_id ` set (live_exams s)"
proof -
  have "find_exam s x = None \<longleftrightarrow> map_option (\<lambda>k. exams s ! k) (find_exam s x) = None"
    by simp
  also have "\<dots> \<longleftrightarrow> find (\<lambda>a. Exam_id a = x) (live_exams s) = None"
    by (simp only: find_exam_find[OF assms])
  also have "\<dots> \<longleftrightarrow> x \<notin> Exam_id ` set (live_exams s)"
    by (auto simp: find_None_iff)
  finally show ?thesis .
qed

lemma search_student_find:
  assumes "valid_store s"
  shows "search_student x s =
     (case find (\<lambda>st. Student_id st = x) (live_students s) of
        None \<Rightarrow> ''Student not found'' @ newline
      | Some st \<Rightarrow> student_line st)"
  using find_student_find[OF assms, of x, symmetric]
  by (cases "find_student s x") (auto simp: search_student_def)

subsection \<open>The effect of each operation on the live entries\<close>

lemma add_student_live:
  fixes st :: Student
  assumes "valid_store s" "student_count s < MAX_STUDENTS"
  defines "s' \<equiv> s\<lparr>students := (students s)[student_count s := st],
                   student_count := student_count s + 1\<rparr>"
  shows "valid_store s'" "live_students s' = live_students s @ [st]"
    "live_exams s' = live_exams s" "live_grades s' = live_grades s"
  using assms(1,2)
  by (simp_all add: s'_def valid_store_def live_students_def live_exams_def live_grades_def
      take_Suc_conv_app_nth)

lemma add_exam_live:
  fixes ex :: Exam
  assumes "valid_store s" "exam_count s < MAX_EXAMS"
  defines "s' \<equiv> s\<lparr>exams := (exams s)[exam_count s := ex],
                   exam_count := exam_count s + 1\<rparr>"
  shows "valid_store s'" "live_exams s' = live_exams s @ [ex]"
    "live_students s' = live_students s" "live_grades s' = live_grades s"
  using assms(1,2)
  by (simp_all add: s'_def valid_store_def live_students_def live_exams_def live_grades_def
      take_Suc_conv_app_nth)

lemma add_grade_live:
  fixes g :: Grade
  assumes "valid_store s" "grade_count s < MAX_GRADES"
  defines "s' \<equiv> s\<lparr>grades := (grades s)[grade_count s := g],
                   grade_count := grade_count s + 1\<rparr>"
  shows "valid_store s'" "live_grades s' = live_grades s @ [g]"
    "live_students s' = live_students s" "live_exams s' = live_exams s"
  using assms(1,2)
  by (simp_all add: s'_def valid_store_def live_students_def live_exams_def live_grades_def
      take_Suc_conv_app_nth)

lemma update_exam_live:
  fixes ex :: Exam and k :: nat
  assumes "valid_store s"
  defines "s' \<equiv> s\<lparr>exams := (exams s)[k := ex]\<rparr>"
  shows "valid_store s'" "live_exams s' = (live_exams s)[k := ex]"
    "live_students s' = live_students s" "live_grades s' = live_grades s"
  using assms(1)
  by (simp_all add: s'_def valid_store_def live_students_def live_exams_def live_grades_def
      take_update_swap)

lemma update_grade_live:
  fixes g :: Grade and k :: nat
  assumes "valid_store s"
  defines "s' \<equiv> s\<lparr>grades := (grades s)[k := g]\<rparr>"
  shows "valid_store s'" "live_grades s' = (live_grades s)[k := g]"
    "live_students s' = live_students s" "live_exams s' = live_exams s"
  using assms(1)
  by (simp_all add: s'_def valid_store_def live_students_def live_exams_def live_grades_def
      take_update_swap)

lemma delete_student_live:
  assumes "valid_store s" "find_student s x = Some m"
  defines "s' \<equiv> snd (delete_student x s)"
  shows "delete_student x s = (''Student: '' @ fmt_d x @ '' deleted'' @ newline, s')"
    "valid_store s'"
    "live_students s' = take m (live_students s) @ drop (Suc m) (live_students s)"
    "live_grades s' = filter (\<lambda>g. Grade_student_id g \<noteq> x) (live_grades s)"
    "live_exams s' = live_exams s"
    "student_count s' = student_count s - 1"
proof -
  define s1 where "s1 = delete_grades_from x 0 s"
  have s': "s' = (shift_students m s1)\<lparr>student_count := student_count s1 - 1\<rparr>"
    using assms(2) by (simp add: s'_def delete_student_def s1_def Let_def shift_students_eq)
  show "delete_student x s = (''Student: '' @ fmt_d x @ '' deleted'' @ newline, s')"
    using assms(2) by (simp add: s'_def delete_student_def Let_def)
  have m: "m < student_count s"
    using assms(2) by (simp add: find_student_Some)
  have frame: "students s1 = students s" "exams s1 = exams s" "student_count s1 = student_count s"
    "exam_count s1 = exam_count s" "length (grades s1) = length (grades s)"
    "grade_count s1 \<le> grade_count s"
    using delete_grades_from_frame[of x 0 s] by (simp_all add: s1_def)
  have g1: "live_grades s1 = filter (\<lambda>g. Grade_student_id g \<noteq> x) (live_grades s)"
    using delete_grades_from_live[of s 0 x] assms(1) by (simp add: s1_def valid_store_def)
  show "valid_store s'"
    using assms(1) frame by (auto simp: s' shift_students_eq valid_store_def)
  show "live_students s' = take m (live_students s) @ drop (Suc m) (live_students s)"
    using take_shift_left[of "student_count s" "students s" m] m assms(1) frame
    by (simp add: s' shift_students_eq live_students_def valid_store_def)
  show "live_grades s' = filter (\<lambda>g. Grade_student_id g \<noteq> x) (live_grades s)"
    using g1 by (simp add: s' shift_students_eq live_grades_def)
  show "live_exams s' = live_exams s"
    using frame by (simp add: s' shift_students_eq live_exams_def)
  show "student_count s' = student_count s - 1"
    using frame by (simp add: s' shift_students_eq)
qed

lemma delete_student_absent:
  "find_student s x = None \<Longrightarrow> delete_student x s = (''Student not found'' @ newline, s)"
  by (simp add: delete_student_def)

subsection \<open>The invariant of reachable stores\<close>

lemma invariant_init: "invariant init_store"
  by (simp add: invariant_def valid_store_def unique_ids_def refs_ok_def init_store_def
      live_students_def live_exams_def live_grades_def)

lemma set_remove_nth:
  "m < length L \<Longrightarrow> set L \<subseteq> insert (L ! m) (set (take m L @ drop (Suc m) L))"
proof -
  assume "m < length L"
  then have "L = take m L @ L ! m # drop (Suc m) L"
    by (simp add: id_take_nth_drop)
  then have "set L = set (take m L @ L ! m # drop (Suc m) L)" by simp
  then show ?thesis by auto
qed

lemma distinct_remove_nth_plain:
  assumes "distinct xs"
  shows "distinct (take m xs @ drop (Suc m) xs)"
proof -
  have "distinct (take m xs @ drop m xs)"
    using assms by simp
  then have "set (take m xs) \<inter> set (drop m xs) = {}"
    by (simp only: distinct_append)
  moreover have "set (drop (Suc m) xs) \<subseteq> set (drop m xs)"
    by (rule set_drop_subset_set_drop) simp
  ultimately have "set (take m xs) \<inter> set (drop (Suc m) xs) = {}"
    by blast
  then show ?thesis
    using assms by (simp add: distinct_append)
qed

lemma distinct_remove_nth:
  assumes "distinct (map f L)"
  shows "distinct (map f (take m L @ drop (Suc m) L))"
proof -
  have "map f (take m L @ drop (Suc m) L) = take m (map f L) @ drop (Suc m) (map f L)"
    by (simp add: take_map drop_map)
  then show ?thesis
    using distinct_remove_nth_plain[OF assms, of m] by (simp only:)
qed

lemma invariant_add_student:
  assumes "invariant s" "add_student id' name faculty s = Inr (out, s')"
  shows "invariant s'"
proof -
  from add_student_Inr[OF assms(2)] show ?thesis
  proof
    assume "s' = s" with assms(1) show ?thesis by simp
  next
    assume a: "find_student s id' = None \<and> student_count s < MAX_STUDENTS \<and>
      out = ''Student: '' @ fmt_d id' @ '' added'' @ newline \<and>
      s' = s\<lparr>students := (students s)[student_count s :=
                 \<lparr>Student_id = id', Student_name = name, Student_faculty = faculty\<rparr>],
             student_count := student_count s + 1\<rparr>"
    have v: "valid_store s" using assms(1) by (simp add: invariant_def)
    have fresh: "id' \<notin> Student_id ` set (live_students s)"
      using a find_student_None_live[OF v] by simp
    note live = add_student_live[OF v, of "\<lparr>Student_id = id', Student_name = name, Student_faculty = faculty\<rparr>"]
    show ?thesis
      using assms(1) a fresh live
      by (auto simp: invariant_def unique_ids_def refs_ok_def)
  qed
qed

lemma invariant_add_exam:
  assumes "invariant s" "add_exam id' type info s = Inr (out, s')"
  shows "invariant s'"
proof -
  from add_exam_Inr[OF assms(2)] show ?thesis
  proof
    assume "s' = s" with assms(1) show ?thesis by simp
  next
    assume a: "find_exam s id' = None \<and> exam_count s < MAX_EXAMS \<and>
      out = ''Exam: '' @ fmt_d id' @ '' added'' @ newline \<and>
      s' = s\<lparr>exams := (exams s)[exam_count s :=
                 \<lparr>Exam_id = id', Exam_type = type, Exam_info = info\<rparr>],
             exam_count := exam_count s + 1\<rparr>"
    have v: "valid_store s" using assms(1) by (simp add: invariant_def)
    have fresh: "id' \<notin> Exam_id ` set (live_exams s)"
      using a find_exam_None_live[OF v] by simp
    note live = add_exam_live[OF v, of "\<lparr>Exam_id = id', Exam_type = type, Exam_info = info\<rparr>"]
    show ?thesis
      using assms(1) a fresh live
      by (auto simp: invariant_def unique_ids_def refs_ok_def)
  qed
qed

lemma invariant_add_grade:
  assumes "invariant s" "add_grade exam_id student_id grade_value s = Inr (out, s')"
  shows "invariant s'"
proof -
  from add_grade_Inr[OF assms(2)] show ?thesis
  proof
    assume "s' = s" with assms(1) show ?thesis by simp
  next
    assume a: "find_student s student_id \<noteq> None \<and> find_exam s exam_id \<noteq> None \<and>
      0 \<le> grade_value \<and> grade_value \<le> 100 \<and> grade_count s < MAX_GRADES \<and>
      s' = s\<lparr>grades := (grades s)[grade_count s :=
                 \<lparr>Grade_exam_id = exam_id, Grade_student_id = student_id,
                  Grade_grade = grade_value\<rparr>],
             grade_count := grade_count s + 1\<rparr>"
    have v: "valid_store s" using assms(1) by (simp add: invariant_def)
    have present: "student_id \<in> Student_id ` set (live_students s)"
      "exam_id \<in> Exam_id ` set (live_exams s)"
      using a find_student_None_live[OF v] find_exam_None_live[OF v] by auto
    note live = add_grade_live[OF v, of "\<lparr>Grade_exam_id = exam_id, Grade_student_id = student_id,
                  Grade_grade = grade_value\<rparr>"]
    show ?thesis
      using assms(1) a present live
      by (auto simp: invariant_def unique_ids_def refs_ok_def)
  qed
qed

lemma map_id_list_update:
  "f v = f (xs ! k) \<Longrightarrow> map f (xs[k := v]) = map f xs"
  by (metis list_update_id map_update)

lemma invariant_update_exam:
  assumes "invariant s" "update_exam id' new_type new_info s = Inr (out, s')"
  shows "invariant s'"
proof -
  from update_exam_Inr[OF assms(2)] show ?thesis
  proof
    assume "s' = s" with assms(1) show ?thesis by simp
  next
    assume "\<exists>index. find_exam s id' = Some index \<and>
      s' = s\<lparr>exams := (exams s)[index :=
                 (exams s ! index)\<lparr>Exam_type := new_type, Exam_info := new_info\<rparr>]\<rparr>"
    then obtain index where a: "find_exam s id' = Some index"
      "s' = s\<lparr>exams := (exams s)[index :=
                 (exams s ! index)\<lparr>Exam_type := new_type, Exam_info := new_info\<rparr>]\<rparr>"
      by blast
    have v: "valid_store s" using assms(1) by (simp add: invariant_def)
    have idx: "index < exam_count s" using a(1) by (simp add: find_exam_Some)
    note live = update_exam_live[OF v, of index
        "(exams s ! index)\<lparr>Exam_type := new_type, Exam_info := new_info\<rparr>"]
    have "live_exams s ! index = exams s ! index"
      using idx by (simp add: live_exams_def)
    then have ids: "map Exam_id (live_exams s') = map Exam_id (live_exams s)"
      using live(2) a(2) by (simp add: map_id_list_update)
    then have "Exam_id ` set (live_exams s') = Exam_id ` set (live_exams s)"
      by (metis set_map)
    then show ?thesis
      using assms(1) a(2) live ids
      by (simp add: invariant_def unique_ids_def refs_ok_def)
  qed
qed

lemma update_grade_cases:
  "update_grade e st v s = (''Invalid grade'' @ newline, s) \<or>
   update_grade e st v s = (''Student not found'' @ newline, s) \<or>
   (\<exists>k < grade_count s.
      Grade_exam_id (grades s ! k) = e \<and> Grade_student_id (grades s ! k) = st \<and>
      update_grade e st v s =
        (''Grade '' @ fmt_d v @ '' updated for the student: '' @ fmt_d st @ newline,
         s\<lparr>grades := (grades s)[k := (grades s ! k)\<lparr>Grade_grade := v\<rparr>]\<rparr>))"
  using update_grade_from_cases[of 0 s e st v]
  by (auto simp: update_grade_def)

lemma invariant_update_grade:
  assumes "invariant s"
  shows "invariant (snd (update_grade e st v s))"
proof -
  have v: "valid_store s" using assms(1) by (simp add: invariant_def)
  from update_grade_cases[of e st v s] show ?thesis
  proof (elim disjE exE conjE)
    fix k assume k: "k < grade_count s"
      and upd: "update_grade e st v s =
        (''Grade '' @ fmt_d v @ '' updated for the student: '' @ fmt_d st @ newline,
         s\<lparr>grades := (grades s)[k := (grades s ! k)\<lparr>Grade_grade := v\<rparr>]\<rparr>)"
    let ?g = "(grades s ! k)\<lparr>Grade_grade := v\<rparr>"
    note live = update_grade_live[OF v, of k ?g]
    have nth: "live_grades s ! k = grades s ! k" "k < length (live_grades s)"
      using k v by (simp_all add: live_grades_def valid_store_def)
    have "set ((live_grades s)[k := ?g]) \<subseteq> insert ?g (set (live_grades s))"
      by (rule set_update_subset_insert)
    moreover have "grades s ! k \<in> set (live_grades s)"
      using nth by (metis nth_mem)
    ultimately show ?thesis
      using assms(1) live upd
      by (auto simp: invariant_def unique_ids_def refs_ok_def)
  qed (use assms in simp_all)
qed

lemma invariant_delete_student:
  assumes "invariant s"
  shows "invariant (snd (delete_student x s))"
proof (cases "find_student s x")
  case None
  then show ?thesis using assms by (simp add: delete_student_absent)
next
  case (Some m)
  have v: "valid_store s" using assms(1) by (simp add: invariant_def)
  note live = delete_student_live[OF v Some]
  let ?L = "live_students s"
  have m: "m < length ?L" "Student_id (?L ! m) = x"
    using Some v by (simp_all add: find_student_Some live_students_def valid_store_def)
  have sub: "set ?L \<subseteq> insert (?L ! m) (set (take m ?L @ drop (Suc m) ?L))"
    using m(1) by (rule set_remove_nth)
  have refs: "refs_ok (snd (delete_student x s))"
    unfolding refs_ok_def
  proof (intro ballI conjI)
    fix g assume "g \<in> set (live_grades (snd (delete_student x s)))"
    then have g: "g \<in> set (live_grades s)" "Grade_student_id g \<noteq> x"
      by (simp_all add: live(4))
    then obtain st where st: "st \<in> set ?L" "Student_id st = Grade_student_id g"
      using assms by (auto simp: invariant_def refs_ok_def)
    then have "st \<noteq> ?L ! m" using g(2) m(2) by auto
    then have "st \<in> set (take m ?L @ drop (Suc m) ?L)"
      using st(1) sub by blast
    then show "Grade_student_id g \<in> Student_id ` set (live_students (snd (delete_student x s)))"
      using st(2) by (simp only: live(3)) force
    show "Grade_exam_id g \<in> Exam_id ` set (live_exams (snd (delete_student x s)))"
      using g(1) assms by (auto simp: live(5) invariant_def refs_ok_def)
  qed
  have "unique_ids (snd (delete_student x s))"
    using assms distinct_remove_nth[of Student_id ?L m]
    by (simp add: unique_ids_def live(3,5) invariant_def)
  with refs live(2) show ?thesis by (simp add: invariant_def)
qed

lemma invariant_exec:
  assumes "invariant s" "exec c s = Inr (out, s')"
  shows "invariant s'"
proof (cases c)
  case (Add_student i n f)
  then show ?thesis using assms invariant_add_student by simp
next
  case (Add_exam i t inf)
  then show ?thesis using assms invariant_add_exam by simp
next
  case (Add_grade e st v)
  then show ?thesis using assms invariant_add_grade by simp
next
  case (Update_exam i t inf)
  then show ?thesis using assms invariant_update_exam by simp
next
  case (Update_grade e st v)
  then show ?thesis using assms invariant_update_grade[of s e st v] by auto
next
  case (Delete_student i)
  then show ?thesis using assms invariant_delete_student[of s i] by auto
qed (use assms in auto)

lemma reachable_invariant: "reachable s \<Longrightarrow> invariant s"
  by (induction rule: reachable.induct) (auto intro: invariant_init invariant_exec)

subsection \<open>The example store\<close>

lemma example_store_simps:
  "student_count example_store = 2" "exam_count example_store = 1" "grade_count example_store = 3"
  "length (students example_store) = 100" "length (exams example_store) = 100"
  "length (grades example_store) = 10000"
  "students example_store ! 0 = \<lparr>Student_id = 1, Student_name = ''John'', Student_faculty = ''ComputerScience''\<rparr>"
  "students example_store ! 1 = \<lparr>Student_id = 3, Student_name = ''Ann'', Student_faculty = ''DataScience''\<rparr>"
  "exams example_store ! 0 = \<lparr>Exam_id = 10, Exam_type = ''WRITTEN'', Exam_info = ''Midterm''\<rparr>"
  "grades example_store ! 0 = \<lparr>Grade_exam_id = 10, Grade_student_id = 1, Grade_grade = 85\<rparr>"
  "grades example_store ! 1 = \<lparr>Grade_exam_id = 10, Grade_student_id = 3, Grade_grade = 77\<rparr>"
  "grades example_store ! 2 = \<lparr>Grade_exam_id = 10, Grade_student_id = 1, Grade_grade = 60\<rparr>"
  by (simp_all add: example_store_def init_store_def MAX_STUDENTS_def MAX_EXAMS_def MAX_GRADES_def)

lemma example_store_valid: "valid_store example_store"
  by (simp add: valid_store_def example_store_simps MAX_STUDENTS_def MAX_EXAMS_def MAX_GRADES_def)

lemma example_store_live:
  "live_students example_store =
     [\<lparr>Student_id = 1, Student_name = ''John'', Student_faculty = ''ComputerScience''\<rparr>,
      \<lparr>Student_id = 3, Student_name = ''Ann'', Student_faculty = ''DataScience''\<rparr>]"
  "live_exams example_store = [\<lparr>Exam_id = 10, Exam_type = ''WRITTEN'', Exam_info = ''Midterm''\<rparr>]"
  "live_grades example_store =
     [\<lparr>Grade_exam_id = 10, Grade_student_id = 1, Grade_grade = 85\<rparr>,
      \<lparr>Grade_exam_id = 10, Grade_student_id = 3, Grade_grade = 77\<rparr>,
      \<lparr>Grade_exam_id = 10, Grade_student_id = 1, Grade_grade = 60\<rparr>]"
  by (auto simp: list_eq_iff_nth_eq live_students_def live_exams_def live_grades_def
      example_store_simps example_store_simps[unfolded One_nat_def]
      example_store_simps(12)[unfolded numeral_2_eq_2] less_Suc_eq numeral_2_eq_2 numeral_3_eq_3)

lemma search_grade_absent:
  "find_student s student_id = None \<Longrightarrow>
   search_grade exam_id student_id s = ''Student not found'' @ newline"
  by (simp add: search_grade_def)

subsection \<open>The scan of \<^verbatim>\<open>update_grade\<close>\<close>

lemma update_grade_at_first:
  assumes "0 \<le> v" "v \<le> 100" "k < grade_count t"
    and "Grade_exam_id (grades t ! k) = e" "Grade_student_id (grades t ! k) = st"
    and "\<forall>j < k. \<not> (Grade_exam_id (grades t ! j) = e \<and> Grade_student_id (grades t ! j) = st)"
  shows "update_grade e st v t =
     (''Grade '' @ fmt_d v @ '' updated for the student: '' @ fmt_d st @ newline,
      t\<lparr>grades := (grades t)[k := (grades t ! k)\<lparr>Grade_grade := v\<rparr>]\<rparr>)"
proof -
  let ?m = "\<lambda>j. Grade_exam_id (grades t ! j) = e \<and> Grade_student_id (grades t ! j) = st"
  have range: "\<not> (v < 0 \<or> v > 100)" using assms by simp
  from update_grade_from_cases[of 0 t e st v]
  show ?thesis
  proof (elim disjE exE conjE)
    fix k' assume k': "k' < grade_count t" "Grade_exam_id (grades t ! k') = e"
      "Grade_student_id (grades t ! k') = st"
      "\<forall>j. 0 \<le> j \<and> j < k' \<longrightarrow> \<not> ?m j"
      and upd: "update_grade_from e st v t 0 =
        (''Grade '' @ fmt_d v @ '' updated for the student: '' @ fmt_d st @ newline,
         t\<lparr>grades := (grades t)[k' := (grades t ! k')\<lparr>Grade_grade := v\<rparr>]\<rparr>)"
    have "\<not> k < k'" using k'(4) assms(4,5) by auto
    moreover have "\<not> k' < k" using assms(6) k'(2,3) by auto
    ultimately have "k' = k" by simp
    then show ?thesis using upd range by (simp add: update_grade_def)
  next
    assume "\<forall>j. 0 \<le> j \<and> j < grade_count t \<longrightarrow> \<not> ?m j"
    then show ?thesis using assms(3,4,5) by auto
  qed
qed

lemma update_grade_no_match:
  assumes "0 \<le> v" "v \<le> 100"
    and "\<forall>j < grade_count t. \<not> (Grade_exam_id (grades t ! j) = e \<and> Grade_student_id (grades t ! j) = st)"
  shows "update_grade e st v t = (''Student not found'' @ newline, t)"
  using update_grade_from_cases[of 0 t e st v] assms
  by (auto simp: update_grade_def)

lemma update_grade_again:
  assumes "0 \<le> v" "v \<le> 100" "k < grade_count t" "k < length (grades t)"
    and "Grade_exam_id (grades t ! k) = e" "Grade_student_id (grades t ! k) = st"
    and "\<forall>j < k. \<not> (Grade_exam_id (grades t ! j) = e \<and> Grade_student_id (grades t ! j) = st)"
  shows "update_grade e st v (snd (update_grade e st v t)) = update_grade e st v t"
proof -
  let ?g = "(grades t ! k)\<lparr>Grade_grade := v\<rparr>"
  let ?t' = "t\<lparr>grades := (grades t)[k := ?g]\<rparr>"
  let ?msg = "''Grade '' @ fmt_d v @ '' updated for the student: '' @ fmt_d st @ newline"
  have r1: "update_grade e st v t = (?msg, ?t')"
    using assms by (intro update_grade_at_first) simp_all
  have same: "Grade_exam_id (grades ?t' ! j) = Grade_exam_id (grades t ! j)"
    "Grade_student_id (grades ?t' ! j) = Grade_student_id (grades t ! j)" for j
    using assms(4) by (cases "j = k"; simp)+
  have "update_grade e st v ?t' =
      (?msg, ?t'\<lparr>grades := (grades ?t')[k := (grades ?t' ! k)\<lparr>Grade_grade := v\<rparr>]\<rparr>)"
    using assms(1,2,3,5,6,7) by (intro update_grade_at_first) (simp_all only: same, simp_all)
  also have "?t'\<lparr>grades := (grades ?t')[k := (grades ?t' ! k)\<lparr>Grade_grade := v\<rparr>]\<rparr> = ?t'"
    using assms(4) by simp
  finally show ?thesis by (simp add: r1)
qed

subsection \<open>A student stays findable until deleted\<close>

lemma valid_store_exec:
  assumes "valid_store s" "exec c s = Inr (out, s')"
  shows "valid_store s'"
proof (cases c)
  case (Add_student i n f)
  with assms(2) have "add_student i n f s = Inr (out, s')" by simp
  from add_student_Inr[OF this] show ?thesis
    using assms(1) add_student_live(1)[OF assms(1)] by auto
next
  case (Add_exam i t inf)
  with assms(2) have "add_exam i t inf s = Inr (out, s')" by simp
  from add_exam_Inr[OF this] show ?thesis
    using assms(1) add_exam_live(1)[OF assms(1)] by auto
next
  case (Add_grade e st v)
  with assms(2) have "add_grade e st v s = Inr (out, s')" by simp
  from add_grade_Inr[OF this] show ?thesis
    using assms(1) add_grade_live(1)[OF assms(1)] by auto
next
  case (Update_exam i t inf)
  with assms(2) have "update_exam i t inf s = Inr (out, s')" by simp
  from update_exam_Inr[OF this] show ?thesis
    using assms(1) update_exam_live(1)[OF assms(1)] by auto
next
  case (Update_grade e st v)
  with assms(2) have "s' = snd (update_grade e st v s)" by auto
  then show ?thesis
    using update_grade_cases[of e st v s] assms(1) update_grade_live(1)[OF assms(1)] by auto
next
  case (Delete_student i)
  with assms(2) have s': "s' = snd (delete_student i s)" by auto
  show ?thesis
  proof (cases "find_student s i")
    case None
    then show ?thesis using s' assms(1) by (simp add: delete_student_absent)
  next
    case (Some m)
    then show ?thesis using s' delete_student_live(2)[OF assms(1) Some] by simp
  qed
qed (use assms in auto)

lemma exec_keeps_student:
  assumes "valid_store s"
    and "find (\<lambda>st. Student_id st = x) (live_students s) = Some R"
    and "exec c s = Inr (out, s')"
    and "c \<noteq> Delete_student x"
  shows "find (\<lambda>st. Student_id st = x) (live_students s') = Some R"
proof (cases c)
  case (Add_student i n f)
  with assms(3) have "add_student i n f s = Inr (out, s')" by simp
  from add_student_Inr[OF this] show ?thesis
    using assms(2) add_student_live(2)[OF assms(1)] by (auto simp: find_append_case)
next
  case (Add_exam i t inf)
  with assms(3) have "add_exam i t inf s = Inr (out, s')" by simp
  from add_exam_Inr[OF this] show ?thesis
    using assms(2) add_exam_live(3)[OF assms(1)] by auto
next
  case (Add_grade e st v)
  with assms(3) have "add_grade e st v s = Inr (out, s')" by simp
  from add_grade_Inr[OF this] show ?thesis
    using assms(2) add_grade_live(3)[OF assms(1)] by auto
next
  case (Update_exam i t inf)
  with assms(3) have "update_exam i t inf s = Inr (out, s')" by simp
  from update_exam_Inr[OF this] show ?thesis
    using assms(2) update_exam_live(3)[OF assms(1)] by auto
next
  case (Update_grade e st v)
  with assms(3) have "s' = snd (update_grade e st v s)" by auto
  then show ?thesis
    using update_grade_cases[of e st v s] assms(2) update_grade_live(3)[OF assms(1)] by auto
next
  case (Delete_student i)
  with assms(3,4) have s': "s' = snd (delete_student i s)" and ne: "i \<noteq> x" by auto
  show ?thesis
  proof (cases "find_student s i")
    case None
    then show ?thesis using s' assms(2) by (simp add: delete_student_absent)
  next
    case (Some m)
    let ?L = "live_students s"
    have m: "m < length ?L" "Student_id (?L ! m) = i"
      using Some assms(1) by (simp_all add: find_student_Some live_students_def valid_store_def)
    have "find (\<lambda>st. Student_id st = x) (take m ?L @ drop (Suc m) ?L) =
        find (\<lambda>st. Student_id st = x) ?L"
      using m ne by (intro find_remove_nth) simp_all
    then show ?thesis
      using s' assms(2) delete_student_live(3)[OF assms(1) Some] by simp
  qed
qed (use assms in auto)

lemma run_calls_keeps_student:
  assumes "valid_store s"
    and "find (\<lambda>st. Student_id st = x) (live_students s) = Some R"
    and "run_calls cs s = Inr (out, s')"
    and "Delete_student x \<notin> set cs"
  shows "valid_store s' \<and> find (\<lambda>st. Student_id st = x) (live_students s') = Some R"
  using assms
proof (induction cs arbitrary: s out)
  case Nil
  then show ?case by simp
next
  case (Cons c cs)
  from Cons.prems(3) obtain o1 s1 o2 where
    c: "exec c s = Inr (o1, s1)" and rest: "run_calls cs s1 = Inr (o2, s')"
    by (auto split: sum.splits prod.splits)
  have "valid_store s1"
    using Cons.prems(1) c by (rule valid_store_exec)
  moreover have "find (\<lambda>st. Student_id st = x) (live_students s1) = Some R"
    using Cons.prems(1,2) c Cons.prems(4) by (intro exec_keeps_student[of s x R c o1 s1]) auto
  ultimately show ?case
    using Cons.IH[OF _ _ rest] Cons.prems(4) by simp
qed

lemma add_student_added:
  assumes "add_student id' name faculty s =
             Inr (''Student: '' @ fmt_d id' @ '' added'' @ newline, s1)"
  shows "find_student s id' = None \<and>
         length name < MAX_NAME_LENGTH \<and> length faculty < MAX_FACULTY_LENGTH \<and>
         faculty \<in> {''SoftwareEngineering'', ''ComputerScience'', ''DataScience'',
                      ''CyberSecurity'', ''InformationTechnology'',
                      ''ProgrammingLanguagesAndCompilers''} \<and>
         name_isalpha name \<and> student_count s < MAX_STUDENTS \<and>
         s1 = s\<lparr>students := (students s)[student_count s :=
                   \<lparr>Student_id = id', Student_name = name, Student_faculty = faculty\<rparr>],
                student_count := student_count s + 1\<rparr>"
  using assms
  by (simp add: add_student_def strcpy_def newline_def split: if_splits)

lemma example_store_find_student_5: "find_student example_store 5 = None"
  by (simp add: find_student_None example_store_simps less_Suc_eq numeral_2_eq_2
      example_store_simps[unfolded One_nat_def])

subsection \<open>Reachability\<close>

lemma search_grade_from_exam_not_found:
  "search_grade_from e st si s i = ''Exam not found'' @ newline \<Longrightarrow>
   \<exists>k < grade_count s. Grade_exam_id (grades s ! k) = e \<and> find_exam s e = None"
proof (induction e st si s i rule: search_grade_from.induct)
  case (1 e st si s i)
  show ?case
  proof (cases "i < grade_count s")
    case False
    with "1.prems" show ?thesis
      by (subst (asm) search_grade_from.simps) simp
  next
    case lt: True
    show ?thesis
    proof (cases "Grade_exam_id (grades s ! i) = e \<and> Grade_student_id (grades s ! i) = st")
      case True
      with "1.prems" lt have "find_exam s e = None"
        by (subst (asm) search_grade_from.simps) (simp split: option.splits)
      with True lt show ?thesis by blast
    next
      case False
      with "1.prems" lt have "search_grade_from e st si s (i + 1) = ''Exam not found'' @ newline"
        by (subst (asm) search_grade_from.simps) auto
      with "1.IH"[OF lt False] show ?thesis by blast
    qed
  qed
qed

lemma reachable_run_calls:
  "reachable s \<Longrightarrow> run_calls cs s = Inr (out, s') \<Longrightarrow> reachable s'"
proof (induction cs arbitrary: s out)
  case Nil
  then show ?case by simp
next
  case (Cons c cs)
  from Cons.prems(2) obtain o1 s1 o2 where
    c: "exec c s = Inr (o1, s1)" and rest: "run_calls cs s1 = Inr (o2, s')"
    by (auto split: sum.splits prod.splits)
  have "reachable s1" using Cons.prems(1) c by (rule reachable.step)
  then show ?case using rest by (rule Cons.IH)
qed

lemma example_store_run:
  "run_calls
     [Add_student 1 ''John'' ''ComputerScience'', Add_student 3 ''Ann'' ''DataScience'',
      Add_exam 10 ''WRITTEN'' ''Midterm'',
      Add_grade 10 1 85, Add_grade 10 3 77, Add_grade 10 1 60] init_store =
   Inr (''Student: 1 added'' @ newline @ ''Student: 3 added'' @ newline @
        ''Exam: 10 added'' @ newline @
        ''Grade 85 added for the student: 1'' @ newline @
        ''Grade 77 added for the student: 3'' @ newline @
        ''Grade 60 added for the student: 1'' @ newline, example_store)"
  by (simp add: add_student_def add_exam_def add_grade_def
      find_student_def find_exam_def find_student_from.simps find_exam_from.simps
      strcpy_def isalpha_def fmt_d_def digits.simps digit_char_def
      MAX_STUDENTS_def MAX_EXAMS_def MAX_GRADES_def MAX_NAME_LENGTH_def MAX_FACULTY_LENGTH_def
      MAX_TYPE_LENGTH_def init_store_def example_store_def numeral_2_eq_2 numeral_3_eq_3)

lemma example_store_reachable: "reachable example_store"
  using reachable.init example_store_run by (rule reachable_run_calls)

subsection \<open>The full store\<close>

lemma full_store_valid: "valid_store full_store"
  by (simp add: valid_store_def full_store_def MAX_STUDENTS_def MAX_EXAMS_def MAX_GRADES_def)

lemma full_store_counts:
  "student_count full_store = 100" "exam_count full_store = 100"
  "grade_count full_store = 10000"
  "length (students full_store) = 100" "length (exams full_store) = 100"
  "length (grades full_store) = 10000"
  by (simp_all add: full_store_def)

lemma full_store_find:
  "find_student full_store 100 = None" "find_exam full_store 100 = None"
  "find_student full_store 0 = Some 0" "find_exam full_store 0 = Some 0"
  by (simp_all add: find_student_None find_exam_None find_student_Some find_exam_Some full_store_def)

subsection \<open>The verb of a line\<close>

lemma token_after_skip_space:
  assumes "skip_space inp \<noteq> []"
  shows "takeWhile (\<lambda>c. \<not> isspace c) (skip_space inp) \<noteq> []"
proof -
  have "\<not> isspace (hd (skip_space inp))"
    using assms unfolding skip_space_def by (rule hd_dropWhile)
  then show ?thesis
    using assms by (cases "skip_space inp") auto
qed

lemma sscanf_cmd:
  "sscanf command fmt_cmd =
     (case verb command of
        None \<Rightarrow> Inr []
      | Some t \<Rightarrow> if length t \<ge> 30 then Inl BufferOverflow else Inr [Str_arg t])"
  unfolding verb_def leading_token_def
  by (subst tokens.simps)
    (simp add: sscanf_def fmt_cmd_def scan_token_def split_beta token_after_skip_space)

lemma c_string_id: "CHR 0x00 \<notin> set buf \<Longrightarrow> c_string buf = buf"
  by (auto simp: c_string_def takeWhile_eq_all_conv)

lemma c_string_NUL: "CHR 0x00 \<notin> set t \<Longrightarrow> c_string (t @ CHR 0x00 # rest) = t"
  by (induction t) (auto simp: c_string_def)

lemma leading_token_prefix:
  assumes "t \<noteq> []" "\<forall>c \<in> set t. \<not> isspace c" "r = [] \<or> isspace (hd r)"
  shows "leading_token (t @ r) = Some t"
proof -
  have sk: "skip_space (t @ r) = t @ r"
    using assms(1,2) by (cases t) (auto simp: skip_space_def)
  have tk: "takeWhile (\<lambda>c. \<not> isspace c) (t @ r) = t"
    using assms(2,3) by (cases r) (auto simp: takeWhile_append2 takeWhile_eq_all_conv)
  show ?thesis
    unfolding leading_token_def
    by (subst tokens.simps) (simp add: sk tk scan_token_def assms(1))
qed

lemma leading_token_nonempty: "leading_token command = Some t \<Longrightarrow> t \<noteq> []"
  by (auto simp: leading_token_def tokens.simps[of command] scan_token_def
      token_after_skip_space split: if_splits)

lemma branch_not_break: "branch command fmt n call invalid s \<noteq> Inr None"
  by (simp add: branch_def split: sum.splits)

lemma process_line_break:
  "process_line command s = Inr None \<longleftrightarrow> verb command = Some ''END''"
proof (cases "verb command")
  case None
  then show ?thesis by (simp add: process_line_def sscanf_cmd)
next
  case (Some t)
  show ?thesis
  proof (cases "length t \<ge> 30")
    case True
    then have "t \<noteq> ''END''" by auto
    with True Some show ?thesis by (simp add: process_line_def sscanf_cmd)
  next
    case False
    with Some show ?thesis
      by (simp add: process_line_def sscanf_cmd branch_not_break)
  qed
qed

subsection \<open>Dispatch on the verb\<close>

lemma branch_invalid:
  "sscanf command fmt = Inr a \<Longrightarrow> length a \<noteq> n \<Longrightarrow>
   branch command fmt n call invalid s = Inr (Some (invalid, s))"
  by (simp add: branch_def)

lemma command_formats_cases:
  assumes "(cmd, fmt, n) \<in> set command_formats"
  obtains
      "cmd = ''ADD_STUDENT''" "fmt = fmt_student" "n = 3"
    | "cmd = ''ADD_EXAM''" "fmt = fmt_exam" "n = 3"
    | "cmd = ''ADD_GRADE''" "fmt = fmt_3d" "n = 3"
    | "cmd = ''UPDATE_EXAM''" "fmt = fmt_exam" "n = 3"
    | "cmd = ''UPDATE_GRADE''" "fmt = fmt_3d" "n = 3"
    | "cmd = ''DELETE_STUDENT''" "fmt = fmt_1d" "n = 1"
    | "cmd = ''SEARCH_STUDENT''" "fmt = fmt_1d" "n = 1"
    | "cmd = ''SEARCH_GRADE''" "fmt = fmt_2d" "n = 2"
  using assms unfolding command_formats_def set_simps insert_iff empty_iff prod.inject
  by (elim disjE conjE) blast+


lemma process_line_invalid:
  assumes "verb command = Some cmd" "length cmd < 30"
    and "(cmd, fmt, n) \<in> set command_formats"
    and "sscanf command fmt = Inr a" "length a \<noteq> n"
  shows "process_line command s =
           Inr (Some (''Invalid '' @ cmd @ '' command format'' @ newline, s))"
proof -
  have scan: "sscanf command fmt_cmd = Inr [Str_arg cmd]"
    using assms(1,2) by (simp add: sscanf_cmd)
  from assms(3) show ?thesis
  proof (cases rule: command_formats_cases)
    case 1
    then show ?thesis using assms(4,5) scan by (simp add: process_line_def branch_invalid)
  next
    case 2
    then show ?thesis using assms(4,5) scan by (simp add: process_line_def branch_invalid)
  next
    case 3
    then show ?thesis using assms(4,5) scan by (simp add: process_line_def branch_invalid)
  next
    case 4
    then show ?thesis using assms(4,5) scan by (simp add: process_line_def branch_invalid)
  next
    case 5
    then show ?thesis using assms(4,5) scan by (simp add: process_line_def branch_invalid)
  next
    case 6
    then show ?thesis using assms(4,5) scan by (simp add: process_line_def branch_invalid)
  next
    case 7
    then show ?thesis using assms(4,5) scan by (simp add: process_line_def branch_invalid)
  next
    case 8
    then show ?thesis using assms(4,5) scan by (simp add: process_line_def branch_invalid)
  qed
qed

lemma process_line_unknown:
  assumes "verb command = Some cmd" "length cmd < 30"
    and "cmd \<notin> fst ` set command_formats" "cmd \<noteq> ''LIST_ALL_STUDENTS''" "cmd \<noteq> ''END''"
  shows "process_line command s = Inr (Some (''Unknown command: '' @ cmd @ newline, s))"
proof -
  have scan: "sscanf command fmt_cmd = Inr [Str_arg cmd]"
    using assms(1,2) by (simp add: sscanf_cmd)
  have "cmd \<noteq> ''ADD_STUDENT''" "cmd \<noteq> ''ADD_EXAM''" "cmd \<noteq> ''ADD_GRADE''"
    "cmd \<noteq> ''UPDATE_EXAM''" "cmd \<noteq> ''UPDATE_GRADE''" "cmd \<noteq> ''DELETE_STUDENT''"
    "cmd \<noteq> ''SEARCH_STUDENT''" "cmd \<noteq> ''SEARCH_GRADE''"
    using assms(3) unfolding command_formats_def by force+
  then show ?thesis
    using assms(4,5) by (simp add: process_line_def scan)
qed


lemma isspace_not_isdigit: "isspace c \<Longrightarrow> \<not> isdigit c"
  by (auto simp: isspace_def isdigit_def Let_def)

lemma skip_space_idem: "skip_space (skip_space inp) = skip_space inp"
  by (simp add: skip_space_def dropWhile_idem)

lemma takeWhile_isdigit_append:
  assumes "takeWhile isdigit b = []" "b \<noteq> [] \<or> r = [] \<or> \<not> isdigit (hd r)"
  shows "takeWhile isdigit (b @ r) = []"
  using assms by (cases b; cases r) (auto split: if_splits)

lemma scan_int_append:
  assumes "scan_int t = None" "t \<noteq> []" "r = [] \<or> \<not> isdigit (hd r)"
  shows "scan_int (t @ r) = None"
proof -
  obtain c cs where t: "t = c # cs" using assms(2) by (cases t) auto
  show ?thesis
  proof (cases "c = CHR ''-'' \<or> c = CHR ''+''")
    case True
    then have "takeWhile isdigit cs = []"
      using assms(1) t by (auto simp: scan_int_def Let_def split: if_splits)
    then have "takeWhile isdigit (cs @ r) = []"
      using assms(3) by (intro takeWhile_isdigit_append) auto
    then show ?thesis using True t by (auto simp: scan_int_def Let_def)
  next
    case False
    then have "takeWhile isdigit (c # cs) = []"
      using assms(1) t by (auto simp: scan_int_def Let_def split: if_splits)
    then have "takeWhile isdigit ((c # cs) @ r) = []"
      by (intro takeWhile_isdigit_append) auto
    then show ?thesis using False t by (simp add: scan_int_def Let_def)
  qed
qed

lemma scan_int_first_token:
  assumes "\<forall>t \<in> set (take 1 (tokens inp)). scan_int t = None"
  shows "scan_int (skip_space inp) = None"
proof (cases "skip_space inp = []")
  case True
  then show ?thesis by (simp add: scan_int_def Let_def)
next
  case False
  let ?r = "skip_space inp"
  let ?t = "takeWhile (\<lambda>c. \<not> isspace c) ?r" and ?r' = "dropWhile (\<lambda>c. \<not> isspace c) ?r"
  have tok: "tokens inp = ?t # tokens ?r'"
    using False by (subst tokens.simps) (simp add: scan_token_def)
  then have none: "scan_int ?t = None" using assms by simp
  have ne: "?t \<noteq> []" using False by (rule token_after_skip_space)
  have "?r' = [] \<or> \<not> isdigit (hd ?r')"
  proof (cases "?r' = []")
    case False
    then have "\<not> \<not> isspace (hd ?r')" by (rule hd_dropWhile)
    then show ?thesis by (simp add: isspace_not_isdigit)
  qed simp
  with none ne have "scan_int (?t @ ?r') = None" by (rule scan_int_append)
  then show ?thesis by simp
qed

lemma sscanf_no_number:
  assumes "verb command = Some cmd"
    and "\<forall>t \<in> set (take 1 (tl (tokens (c_string command)))). scan_int t = None"
  shows "sscanf command (Skip_s # White # Conv_d # ds) = Inr []"
proof -
  let ?c = "skip_space (c_string command)"
  let ?rest = "snd (scan_token ?c)"
  have ne: "?c \<noteq> []"
    using assms(1)
    by (auto simp: verb_def leading_token_def tokens.simps[of "c_string command"] split: if_splits)
  then have tok: "tokens (c_string command) = fst (scan_token ?c) # tokens ?rest"
    by (subst tokens.simps) simp
  have t0: "fst (scan_token ?c) \<noteq> []"
    using token_after_skip_space[OF ne] by (simp add: scan_token_def)
  have "scan_int (skip_space ?rest) = None"
    using assms(2) tok by (intro scan_int_first_token) simp
  then show ?thesis
    using t0 by (simp add: sscanf_def split_beta skip_space_idem)
qed

lemma command_formats_shape:
  assumes "(cmd, fmt, n) \<in> set command_formats"
  shows "\<exists>ds. fmt = Skip_s # White # Conv_d # ds" "0 < n"
  using assms
  by (cases rule: command_formats_cases;
      simp add: fmt_student_def fmt_exam_def fmt_3d_def fmt_2d_def fmt_1d_def)+


lemma command_formats_short:
  assumes "(cmd, fmt, n) \<in> set command_formats"
  shows "length cmd < 30"
  using assms by (cases rule: command_formats_cases) simp_all

lemma process_line_add_student:
  assumes "sscanf command fmt_cmd = Inr [Str_arg ''ADD_STUDENT'']"
    and "sscanf command fmt_student = Inr [Int_arg i, Str_arg n, Str_arg f]"
    and "add_student i n f s = Inr r"
  shows "process_line command s = Inr (Some r)"
  using assms by (simp add: process_line_def branch_def)

lemma tokens_eval:
  "tokens (''ADD_STUDENT 1John ComputerScience'' @ newline) =
     [''ADD_STUDENT'', ''1John'', ''ComputerScience'']"
  "tokens (''ADD_GRADE 10 x 5'' @ newline) = [''ADD_GRADE'', ''10'', ''x'', ''5'']"
  "tokens (''DELETE_STUDENT'' @ newline) = [''DELETE_STUDENT'']"
  "tokens (''SEARCH_GRADE ten 1'' @ newline) = [''SEARCH_GRADE'', ''ten'', ''1'']"
  "tokens (''FOO 1 2'' @ newline) = [''FOO'', ''1'', ''2'']"
  by (simp_all add: tokens.simps skip_space_def scan_token_def isspace_def newline_def)

lemma process_line_search_student:
  assumes "sscanf command fmt_cmd = Inr [Str_arg ''SEARCH_STUDENT'']"
    and "sscanf command fmt_1d = Inr [Int_arg i]"
  shows "process_line command s = Inr (Some (search_student i s, s))"
  using assms by (simp add: process_line_def branch_def)

subsection \<open>The full store is reachable\<close>

lemma list_update_fill:
  assumes "a < n"
  shows "(map f [0..<a] @ replicate (n - a) z)[a := f a] = map f [0..<Suc a] @ replicate (n - Suc a) z"
proof -
  have "replicate (n - a) z = z # replicate (n - Suc a) z"
    using assms by (metis Suc_diff_Suc replicate_Suc)
  then show ?thesis
    by (simp add: list_update_append)
qed

lemma filled_store_init: "filled_store 0 0 0 = init_store"
  by (simp add: filled_store_def init_store_def)

lemma filled_store_full: "filled_store 100 100 10000 = full_store"
  by (simp add: filled_store_def full_store_def MAX_STUDENTS_def MAX_EXAMS_def MAX_GRADES_def)

lemma filled_add_student:
  assumes "a < 100"
  shows "add_student (int a) ''A'' ''DataScience'' (filled_store a b c) =
     Inr (''Student: '' @ fmt_d (int a) @ '' added'' @ newline, filled_store (Suc a) b c)"
proof -
  have "find_student (filled_store a b c) (int a) = None"
    by (simp add: find_student_None filled_store_def nth_append)
  moreover have "student_count (filled_store a b c) < MAX_STUDENTS"
    using assms by (simp add: filled_store_def MAX_STUDENTS_def)
  moreover have "(filled_store a b c)\<lparr>students := (students (filled_store a b c))
        [student_count (filled_store a b c) :=
           \<lparr>Student_id = int a, Student_name = ''A'', Student_faculty = ''DataScience''\<rparr>],
       student_count := student_count (filled_store a b c) + 1\<rparr> = filled_store (Suc a) b c"
    using assms list_update_fill[of a MAX_STUDENTS
        "\<lambda>i. \<lparr>Student_id = int i, Student_name = ''A'', Student_faculty = ''DataScience''\<rparr>"
        zero_Student]
    by (simp add: filled_store_def MAX_STUDENTS_def)
  ultimately show ?thesis
    by (simp add: add_student_def strcpy_def isalpha_def MAX_NAME_LENGTH_def
        MAX_FACULTY_LENGTH_def)
qed

lemma filled_add_exam:
  assumes "b < 100"
  shows "add_exam (int b) ''WRITTEN'' ''x'' (filled_store a b c) =
     Inr (''Exam: '' @ fmt_d (int b) @ '' added'' @ newline, filled_store a (Suc b) c)"
proof -
  have "find_exam (filled_store a b c) (int b) = None"
    by (simp add: find_exam_None filled_store_def nth_append)
  moreover have "exam_count (filled_store a b c) < MAX_EXAMS"
    using assms by (simp add: filled_store_def MAX_EXAMS_def)
  moreover have "(filled_store a b c)\<lparr>exams := (exams (filled_store a b c))
        [exam_count (filled_store a b c) :=
           \<lparr>Exam_id = int b, Exam_type = ''WRITTEN'', Exam_info = ''x''\<rparr>],
       exam_count := exam_count (filled_store a b c) + 1\<rparr> = filled_store a (Suc b) c"
    using assms list_update_fill[of b MAX_EXAMS
        "\<lambda>i. \<lparr>Exam_id = int i, Exam_type = ''WRITTEN'', Exam_info = ''x''\<rparr>" zero_Exam]
    by (simp add: filled_store_def MAX_EXAMS_def)
  ultimately show ?thesis
    by (simp add: add_exam_def strcpy_def MAX_NAME_LENGTH_def MAX_TYPE_LENGTH_def)
qed

lemma filled_add_grade:
  assumes "c < 10000"
  shows "add_grade (int (c div 100)) (int (c mod 100)) 50 (filled_store 100 100 c) =
     Inr (''Grade '' @ fmt_d 50 @ '' added for the student: '' @ fmt_d (int (c mod 100)) @ newline,
          filled_store 100 100 (Suc c))"
proof -
  have "c mod 100 < 100" "c div 100 < 100" using assms by simp_all
  then have "find_student (filled_store 100 100 c) (int (c mod 100)) \<noteq> None"
    "find_exam (filled_store 100 100 c) (int (c div 100)) \<noteq> None"
    by (auto simp: find_student_None find_exam_None filled_store_def nth_append
        intro!: exI[of _ "c mod 100"] exI[of _ "c div 100"])
  moreover have "grade_count (filled_store 100 100 c) < MAX_GRADES"
    using assms by (simp add: filled_store_def MAX_GRADES_def MAX_EXAMS_def MAX_STUDENTS_def)
  moreover have "(filled_store 100 100 c)\<lparr>grades := (grades (filled_store 100 100 c))
        [grade_count (filled_store 100 100 c) :=
           \<lparr>Grade_exam_id = int (c div 100), Grade_student_id = int (c mod 100),
            Grade_grade = 50\<rparr>],
       grade_count := grade_count (filled_store 100 100 c) + 1\<rparr> = filled_store 100 100 (Suc c)"
    using assms list_update_fill[of c MAX_GRADES
        "\<lambda>k. \<lparr>Grade_exam_id = int (k div 100), Grade_student_id = int (k mod 100),
               Grade_grade = 50\<rparr>" zero_Grade]
    by (simp add: filled_store_def MAX_GRADES_def MAX_EXAMS_def MAX_STUDENTS_def)
  ultimately show ?thesis
    by (simp add: add_grade_def)
qed

lemma reachable_filled_students: "a \<le> 100 \<Longrightarrow> reachable (filled_store a 0 0)"
proof (induction a)
  case 0
  show ?case using reachable.init by (simp add: filled_store_init)
next
  case (Suc a)
  then have r: "reachable (filled_store a 0 0)" and a: "a < 100" by simp_all
  have "exec (Add_student (int a) ''A'' ''DataScience'') (filled_store a 0 0) =
      Inr (''Student: '' @ fmt_d (int a) @ '' added'' @ newline, filled_store (Suc a) 0 0)"
    using filled_add_student[OF a] by (simp only: exec.simps)
  with r show ?case by (rule reachable.step)
qed

lemma reachable_filled_exams: "b \<le> 100 \<Longrightarrow> reachable (filled_store 100 b 0)"
proof (induction b)
  case 0
  show ?case using reachable_filled_students[of 100] by simp
next
  case (Suc b)
  then have r: "reachable (filled_store 100 b 0)" and b: "b < 100" by simp_all
  have "exec (Add_exam (int b) ''WRITTEN'' ''x'') (filled_store 100 b 0) =
      Inr (''Exam: '' @ fmt_d (int b) @ '' added'' @ newline, filled_store 100 (Suc b) 0)"
    using filled_add_exam[OF b] by (simp only: exec.simps)
  with r show ?case by (rule reachable.step)
qed

lemma reachable_filled_grades: "c \<le> 10000 \<Longrightarrow> reachable (filled_store 100 100 c)"
proof (induction c)
  case 0
  show ?case using reachable_filled_exams[of 100] by simp
next
  case (Suc c)
  then have r: "reachable (filled_store 100 100 c)" and c: "c < 10000" by simp_all
  have "exec (Add_grade (int (c div 100)) (int (c mod 100)) 50) (filled_store 100 100 c) =
      Inr (''Grade '' @ fmt_d 50 @ '' added for the student: '' @ fmt_d (int (c mod 100))
             @ newline, filled_store 100 100 (Suc c))"
    using filled_add_grade[OF c] by (simp only: exec.simps)
  with r show ?case by (rule reachable.step)
qed

lemma full_store_reachable: "reachable full_store"
  using reachable_filled_grades[of 10000] by (simp add: filled_store_full)

subsection \<open>The command loop stays within the reachable stores\<close>

lemma branch_Some:
  assumes "branch command fmt n call invalid s = Inr (Some (out, s'))"
  shows "s' = s \<or> (\<exists>a. call a = Inr (out, s'))"
  using assms by (auto simp: branch_def split: sum.splits if_splits)

lemma exec_witness:
  "add_student i n f s = Inr r \<Longrightarrow> \<exists>c. exec c s = Inr r"
  "add_exam i t info s = Inr r \<Longrightarrow> \<exists>c. exec c s = Inr r"
  "add_grade e st v s = Inr r \<Longrightarrow> \<exists>c. exec c s = Inr r"
  "update_exam i t info s = Inr r \<Longrightarrow> \<exists>c. exec c s = Inr r"
  "update_grade e st v s = r \<Longrightarrow> \<exists>c. exec c s = Inr r"
  "delete_student i s = r \<Longrightarrow> \<exists>c. exec c s = Inr r"
proof -
  show "add_student i n f s = Inr r \<Longrightarrow> \<exists>c. exec c s = Inr r"
    by (rule exI[of _ "Add_student i n f"]) simp
  show "add_exam i t info s = Inr r \<Longrightarrow> \<exists>c. exec c s = Inr r"
    by (rule exI[of _ "Add_exam i t info"]) simp
  show "add_grade e st v s = Inr r \<Longrightarrow> \<exists>c. exec c s = Inr r"
    by (rule exI[of _ "Add_grade e st v"]) simp
  show "update_exam i t info s = Inr r \<Longrightarrow> \<exists>c. exec c s = Inr r"
    by (rule exI[of _ "Update_exam i t info"]) simp
  show "update_grade e st v s = r \<Longrightarrow> \<exists>c. exec c s = Inr r"
    by (rule exI[of _ "Update_grade e st v"]) simp
  show "delete_student i s = r \<Longrightarrow> \<exists>c. exec c s = Inr r"
    by (rule exI[of _ "Delete_student i"]) simp
qed

lemma process_line_exec:
  assumes "process_line command s = Inr (Some (out, s'))"
  shows "s' = s \<or> (\<exists>c. exec c s = Inr (out, s'))"
proof -
  from assms obtain a0 where a0: "sscanf command fmt_cmd = Inr a0" "a0 \<noteq> []"
    by (auto simp: process_line_def split: sum.splits if_splits)
  define cmd where "cmd = str_of (a0 ! 0)"
  note pl = assms[unfolded process_line_def a0(1) sum.case, simplified a0(2) if_False Let_def,
      folded cmd_def]
  consider "cmd = ''ADD_STUDENT''" | "cmd = ''ADD_EXAM''" | "cmd = ''ADD_GRADE''"
    | "cmd = ''UPDATE_EXAM''" | "cmd = ''UPDATE_GRADE''" | "cmd = ''DELETE_STUDENT''"
    | "cmd = ''SEARCH_STUDENT''" | "cmd = ''SEARCH_GRADE''"
    | "cmd \<noteq> ''ADD_STUDENT''" "cmd \<noteq> ''ADD_EXAM''" "cmd \<noteq> ''ADD_GRADE''"
      "cmd \<noteq> ''UPDATE_EXAM''" "cmd \<noteq> ''UPDATE_GRADE''" "cmd \<noteq> ''DELETE_STUDENT''"
      "cmd \<noteq> ''SEARCH_STUDENT''" "cmd \<noteq> ''SEARCH_GRADE''"
    by argo
  then show ?thesis
  proof cases
    case 1
    with pl have "branch command fmt_student 3
        (\<lambda>a. add_student (int_of (a ! 0)) (str_of (a ! 1)) (str_of (a ! 2)) s)
        (''Invalid ADD_STUDENT command format'' @ newline) s = Inr (Some (out, s'))" by simp
    from branch_Some[OF this] show ?thesis by (auto dest: exec_witness)
  next
    case 2
    with pl have "branch command fmt_exam 3
        (\<lambda>a. add_exam (int_of (a ! 0)) (str_of (a ! 1)) (str_of (a ! 2)) s)
        (''Invalid ADD_EXAM command format'' @ newline) s = Inr (Some (out, s'))" by simp
    from branch_Some[OF this] show ?thesis by (auto dest: exec_witness)
  next
    case 3
    with pl have "branch command fmt_3d 3
        (\<lambda>a. add_grade (int_of (a ! 0)) (int_of (a ! 1)) (int_of (a ! 2)) s)
        (''Invalid ADD_GRADE command format'' @ newline) s = Inr (Some (out, s'))" by simp
    from branch_Some[OF this] show ?thesis by (auto dest: exec_witness)
  next
    case 4
    with pl have "branch command fmt_exam 3
        (\<lambda>a. update_exam (int_of (a ! 0)) (str_of (a ! 1)) (str_of (a ! 2)) s)
        (''Invalid UPDATE_EXAM command format'' @ newline) s = Inr (Some (out, s'))" by simp
    from branch_Some[OF this] show ?thesis by (auto dest: exec_witness)
  next
    case 5
    with pl have "branch command fmt_3d 3
        (\<lambda>a. Inr (update_grade (int_of (a ! 0)) (int_of (a ! 1)) (int_of (a ! 2)) s))
        (''Invalid UPDATE_GRADE command format'' @ newline) s = Inr (Some (out, s'))" by simp
    from branch_Some[OF this] show ?thesis by (auto dest: exec_witness)
  next
    case 6
    with pl have "branch command fmt_1d 1
        (\<lambda>a. Inr (delete_student (int_of (a ! 0)) s))
        (''Invalid DELETE_STUDENT command format'' @ newline) s = Inr (Some (out, s'))" by simp
    from branch_Some[OF this] show ?thesis by (auto dest: exec_witness)
  next
    case 7
    with pl have "branch command fmt_1d 1
        (\<lambda>a. Inr (search_student (int_of (a ! 0)) s, s))
        (''Invalid SEARCH_STUDENT command format'' @ newline) s = Inr (Some (out, s'))" by simp
    from branch_Some[OF this] show ?thesis by auto
  next
    case 8
    with pl have "branch command fmt_2d 2
        (\<lambda>a. Inr (search_grade (int_of (a ! 0)) (int_of (a ! 1)) s, s))
        (''Invalid SEARCH_GRADE command format'' @ newline) s = Inr (Some (out, s'))" by simp
    from branch_Some[OF this] show ?thesis by auto
  next
    case 9
    with pl show ?thesis by (auto split: if_splits)
  qed
qed

lemma main_loop_reachable:
  "reachable s \<Longrightarrow> main_loop commands s = Inr (out, s') \<Longrightarrow> reachable s'"
proof (induction commands arbitrary: s out)
  case Nil
  then show ?case by simp
next
  case (Cons command rest)
  show ?case
  proof (cases "process_line command s")
    case (Inl f)
    with Cons.prems(2) show ?thesis by simp
  next
    case (Inr r)
    show ?thesis
    proof (cases r)
      case None
      with Inr Cons.prems show ?thesis by simp
    next
      case (Some p)
      obtain o1 s1 where p: "p = (o1, s1)" by (cases p) auto
      with Inr Some have pl: "process_line command s = Inr (Some (o1, s1))" by simp
      from process_line_exec[OF pl] Cons.prems(1) have "reachable s1"
        by (auto intro: reachable.step)
      moreover from Cons.prems(2) pl obtain o2 where "main_loop rest s1 = Inr (o2, s')"
        by (auto split: sum.splits)
      ultimately show ?thesis by (rule Cons.IH)
    qed
  qed
qed

subsection \<open>The values a scan assigns\<close>

text \<open>
  The list \<^verbatim>\<open>sscanf\<close> returns has one value for each conversion it completed, in the
  order of the format and of the kind of the conversion. So where \<open>process_line\<close> has
  compared the length of the list with the number of conversions, its projections
  \<open>int_of\<close> and \<open>str_of\<close> read what the conversions stored.
\<close>

lemma sscanf_from_shape:
  "sscanf_from inp fmt args = Inr a \<Longrightarrow>
   \<exists>b. a = args @ b \<and> length b \<le> length (conversions fmt) \<and>
       list_all2 fits (take (length b) (conversions fmt)) b"
proof (induction inp fmt args rule: sscanf_from.induct)
  case (1 inp args)
  then show ?case by (simp add: conversions_def)
next
  case (2 inp ds args)
  then show ?case by (simp add: conversions_def)
next
  case (3 inp ds args)
  show ?case
  proof (cases "fst (scan_token (skip_space inp)) = []")
    case True
    with "3.prems" show ?thesis by (simp add: split_beta conversions_def)
  next
    case False
    with "3.prems" have "sscanf_from (snd (scan_token (skip_space inp))) ds args = Inr a"
      by (simp add: split_beta)
    from "3.IH"[OF refl prod.collapse False this] show ?thesis
      by (simp add: conversions_def)
  qed
next
  case (4 inp cap ds args)
  let ?tok = "fst (scan_token (skip_space inp))" and ?rest = "snd (scan_token (skip_space inp))"
  show ?case
  proof (cases "?tok = []")
    case True
    with "4.prems" show ?thesis by (simp add: split_beta conversions_def)
  next
    case False
    with "4.prems" have len: "\<not> cap \<le> length ?tok"
      and rec: "sscanf_from ?rest ds (args @ [Str_arg ?tok]) = Inr a"
      by (simp_all add: split_beta split: if_splits)
    from "4.IH"[OF refl prod.collapse False len rec] obtain b where
      b: "a = (args @ [Str_arg ?tok]) @ b" "length b \<le> length (conversions ds)"
      "list_all2 fits (take (length b) (conversions ds)) b"
      by blast
    have "\<forall>c \<in> set ?tok. \<not> isspace c"
      by (auto simp: scan_token_def dest: set_takeWhileD)
    with b False len show ?thesis
      by (intro exI[of _ "Str_arg ?tok # b"]) (simp add: conversions_def)
  qed
next
  case (5 inp ds args)
  show ?case
  proof (cases "scan_int (skip_space inp)")
    case None
    with "5.prems" show ?thesis by (simp add: conversions_def)
  next
    case (Some p)
    obtain v rest where p: "p = (v, rest)" by (cases p) auto
    with Some "5.prems" have range: "\<not> (v < INT_MIN \<or> v > INT_MAX)"
      and rec: "sscanf_from rest ds (args @ [Int_arg v]) = Inr a"
      by (simp_all split: if_splits)
    from "5.IH"[OF Some[unfolded p] refl range rec] obtain b where
      b: "a = (args @ [Int_arg v]) @ b" "length b \<le> length (conversions ds)"
      "list_all2 fits (take (length b) (conversions ds)) b"
      by blast
    with range show ?thesis
      by (intro exI[of _ "Int_arg v # b"]) (simp add: conversions_def)
  qed
qed

lemma sscanf_shape:
  assumes "sscanf inp fmt = Inr a"
  shows "length a \<le> length (conversions fmt)"
    and "list_all2 fits (take (length a) (conversions fmt)) a"
  using sscanf_from_shape[of "c_string inp" fmt "[]" a] assms by (auto simp: sscanf_def)

lemma sscanf_student_shape:
  assumes "sscanf command fmt_student = Inr a" "length a = 3"
  shows "\<exists>i n f. a = [Int_arg i, Str_arg n, Str_arg f] \<and> INT_MIN \<le> i \<and> i \<le> INT_MAX \<and>
           length n < MAX_NAME_LENGTH \<and> length f < MAX_FACULTY_LENGTH"
proof -
  have "list_all2 fits [Conv_d, Conv_s MAX_NAME_LENGTH, Conv_s MAX_FACULTY_LENGTH] a"
    using sscanf_shape(2)[OF assms(1)] assms(2) by (simp add: conversions_def fmt_student_def)
  then obtain x y z where a: "a = [x, y, z]" "fits Conv_d x" "fits (Conv_s MAX_NAME_LENGTH) y"
    "fits (Conv_s MAX_FACULTY_LENGTH) z"
    by (auto simp: list_all2_Cons1)
  then show ?thesis
    by (cases x; cases y; cases z) auto
qed

subsection \<open>A run of the program\<close>

text \<open>The first scenarios of the specification, from the file contents to the output.\<close>

lemma fgets_all_example:
  "fgets_all MAX_COMMAND_LENGTH
     (''ADD_STUDENT 1 John ComputerScience'' @ newline @ ''ADD_EXAM 10 WRITTEN Midterm'' @ newline @
      ''ADD_GRADE 10 1 85'' @ newline @ ''SEARCH_GRADE 10 1'' @ newline @ ''END'' @ newline) =
   [''ADD_STUDENT 1 John ComputerScience'' @ newline, ''ADD_EXAM 10 WRITTEN Midterm'' @ newline,
    ''ADD_GRADE 10 1 85'' @ newline, ''SEARCH_GRADE 10 1'' @ newline, ''END'' @ newline]"
  by (simp add: fgets_all.simps fgets_def MAX_COMMAND_LENGTH_def newline_def)


lemma main_loop_example:
  "main_loop
     [''ADD_STUDENT 1 John ComputerScience'' @ newline,
      ''ADD_STUDENT 1 John ComputerScience'' @ newline,
      ''ADD_EXAM 10 WRITTEN Midterm'' @ newline,
      ''ADD_GRADE 10 1 85'' @ newline, ''SEARCH_GRADE 10 1'' @ newline,
      ''ADD_STUDENT 2 J0hn ComputerScience'' @ newline,
      ''END'' @ newline] init_store =
   Inr (''Student: 1 added'' @ newline @ ''Student: 1 already exists'' @ newline @
        ''Exam: 10 added'' @ newline @ ''Grade 85 added for the student: 1'' @ newline @
        ''Exam: 10, Student: 1, Name: John, Grade: 85, Type: WRITTEN, Info: Midterm'' @ newline @
        ''Invalid name'' @ newline,
        init_store\<lparr>students := (students init_store)
            [0 := \<lparr>Student_id = 1, Student_name = ''John'', Student_faculty = ''ComputerScience''\<rparr>],
          exams := (exams init_store)
            [0 := \<lparr>Exam_id = 10, Exam_type = ''WRITTEN'', Exam_info = ''Midterm''\<rparr>],
          grades := (grades init_store)
            [0 := \<lparr>Grade_exam_id = 10, Grade_student_id = 1, Grade_grade = 85\<rparr>],
          student_count := 1, exam_count := 1, grade_count := 1\<rparr>)"
  by (simp add: process_line_def branch_def sscanf_def c_string_def fmt_cmd_def fmt_student_def fmt_exam_def
      fmt_3d_def fmt_2d_def fmt_1d_def skip_space_def scan_token_def isspace_def scan_int_def
      isdigit_def decimal_def digit_value_def INT_MIN_def INT_MAX_def
      add_student_def add_exam_def add_grade_def search_grade_def
      find_student_def find_exam_def find_student_from.simps find_exam_from.simps
      search_grade_from.simps strcpy_def isalpha_def fmt_d_def digits.simps digit_char_def
      MAX_STUDENTS_def MAX_EXAMS_def MAX_GRADES_def MAX_NAME_LENGTH_def MAX_FACULTY_LENGTH_def
      MAX_TYPE_LENGTH_def init_store_def newline_def)

lemma main_example:
  "main (''ADD_STUDENT 1 John ComputerScience'' @ newline @ ''ADD_EXAM 10 WRITTEN Midterm'' @ newline @
      ''ADD_GRADE 10 1 85'' @ newline @ ''SEARCH_GRADE 10 1'' @ newline @ ''END'' @ newline) =
   Inr (''Student: 1 added'' @ newline @ ''Exam: 10 added'' @ newline @
        ''Grade 85 added for the student: 1'' @ newline @
        ''Exam: 10, Student: 1, Name: John, Grade: 85, Type: WRITTEN, Info: Midterm'' @ newline)"
  unfolding main_def fgets_all_example
  by (simp add: process_line_def branch_def sscanf_def c_string_def fmt_cmd_def fmt_student_def fmt_exam_def
      fmt_3d_def fmt_2d_def fmt_1d_def skip_space_def scan_token_def isspace_def scan_int_def
      isdigit_def decimal_def digit_value_def INT_MIN_def INT_MAX_def
      add_student_def add_exam_def add_grade_def search_grade_def
      find_student_def find_exam_def find_student_from.simps find_exam_from.simps
      search_grade_from.simps strcpy_def isalpha_def fmt_d_def digits.simps digit_char_def
      MAX_STUDENTS_def MAX_EXAMS_def MAX_GRADES_def MAX_NAME_LENGTH_def MAX_FACULTY_LENGTH_def
      MAX_TYPE_LENGTH_def init_store_def newline_def)

subsection \<open>Buffers and lines\<close>

text \<open>
  A line that fits the command buffer with its newline arrives in one piece, so an input
  whose lines all fit is processed line by line. A longer line arrives in several buffers.
\<close>

lemma fgets_long:
  assumes "CHR 0x0A \<notin> set a" "length a = n - 1"
  shows "fgets n (a @ b) = a"
proof (cases "dropWhile (\<lambda>c. c \<noteq> CHR 0x0A) (a @ b)")
  case Nil
  show ?thesis
    unfolding fgets_def Nil using assms(2) by simp
next
  case (Cons c cs)
  have "takeWhile (\<lambda>c. c \<noteq> CHR 0x0A) (a @ b) = a @ takeWhile (\<lambda>c. c \<noteq> CHR 0x0A) b"
    using assms(1) by (induction a) auto
  then show ?thesis
    unfolding fgets_def Cons using assms(2) by simp
qed

lemma fgets_all_step:
  assumes "inp \<noteq> []" "1 < n" "fgets n inp = a" "drop (length a) inp = rest"
  shows "fgets_all n inp = a # fgets_all n rest"
  using assms by (subst fgets_all.simps) simp

lemma fgets_all_lines:
  assumes "1 < n"
  shows "\<forall>l \<in> set (lines_of inp). length l < n \<Longrightarrow> fgets_all n inp = lines_of inp"
proof (induction inp rule: lines_of.induct)
  case (1 inp)
  show ?case
  proof (cases "inp = []")
    case True
    then show ?thesis by (simp add: fgets_all.simps lines_of.simps)
  next
    case False
    show ?thesis
    proof (cases "dropWhile (\<lambda>c. c \<noteq> CHR 0x0A) inp")
      case Nil
      have l: "lines_of inp = [inp]"
        by (subst lines_of.simps) (simp add: False Nil)
      with "1.prems" have len: "length inp < n" by simp
      have f: "fgets n inp = inp"
        unfolding fgets_def Nil using len by simp
      show ?thesis
        using False assms f l by (simp add: fgets_all.simps[of n inp] fgets_all.simps[of n "[]"])
    next
      case (Cons c cs)
      let ?line = "takeWhile (\<lambda>c. c \<noteq> CHR 0x0A) inp @ [c]"
      have l: "lines_of inp = ?line # lines_of cs"
        by (subst lines_of.simps) (simp add: False Cons)
      have "takeWhile (\<lambda>c. c \<noteq> CHR 0x0A) inp @ dropWhile (\<lambda>c. c \<noteq> CHR 0x0A) inp = inp"
        by (rule takeWhile_dropWhile_id)
      then have inp: "?line @ cs = inp"
        using Cons by simp
      have len: "length ?line < n"
        using "1.prems" l by simp
      have f: "fgets n inp = ?line"
        unfolding fgets_def Cons using len by simp
      have "drop (length ?line) (?line @ cs) = cs"
        by simp
      then have d: "drop (length (fgets n inp)) inp = cs"
        unfolding f inp .
      have "fgets_all n cs = lines_of cs"
        using "1.IH"[OF False Cons] "1.prems" l by simp
      then show ?thesis
        using False assms f d l by (simp add: fgets_all.simps[of n inp])
    qed
  qed
qed

lemma lines_of_line:
  assumes "CHR 0x0A \<notin> set a"
  shows "lines_of (a @ CHR 0x0A # rest) = (a @ [CHR 0x0A]) # lines_of rest"
proof -
  have "takeWhile (\<lambda>c. c \<noteq> CHR 0x0A) (a @ CHR 0x0A # rest) = a"
    and "dropWhile (\<lambda>c. c \<noteq> CHR 0x0A) (a @ CHR 0x0A # rest) = CHR 0x0A # rest"
    using assms by (induction a) auto
  then show ?thesis
    by (subst lines_of.simps) simp
qed

lemma main_loop_takeWhile:
  "main_loop commands s =
     concat_responses (takeWhile (\<lambda>command. verb command \<noteq> Some ''END'') commands) s"
proof (induction commands arbitrary: s)
  case Nil
  show ?case by simp
next
  case (Cons command rest)
  show ?case
  proof (cases "verb command = Some ''END''")
    case True
    then have "process_line command s = Inr None"
      by (simp add: process_line_break)
    with True show ?thesis by simp
  next
    case False
    then have nb: "process_line command s \<noteq> Inr None"
      by (simp add: process_line_break)
    show ?thesis
    proof (cases "process_line command s")
      case (Inl f)
      with False show ?thesis by (simp add: response_def)
    next
      case (Inr r)
      with nb obtain out s' where r: "r = Some (out, s')" by (cases r) auto
      with Inr False Cons.IH[of s'] show ?thesis by (simp add: response_def)
    qed
  qed
qed

lemma main_takeWhile:
  "main inp =
     output_of (concat_responses
       (takeWhile (\<lambda>command. verb command \<noteq> Some ''END'') (fgets_all MAX_COMMAND_LENGTH inp))
       init_store)"
  unfolding main_def output_of_def main_loop_takeWhile ..

text \<open>The long line of the example, as \<^verbatim>\<open>fgets\<close> delivers it and as a whole.\<close>

lemma long_input_pieces:
  "fgets_all MAX_COMMAND_LENGTH long_input =
     [''FOO'' @ replicate 252 CHR '' '', ''END'' @ newline, ''BAR'' @ newline]"
proof -
  let ?a = "''FOO'' @ replicate 252 CHR '' ''" and ?rest = "''END'' @ newline @ ''BAR'' @ newline"
  have inp: "long_input = ?a @ ?rest"
    by (simp add: long_input_def long_line_def)
  have first: "fgets MAX_COMMAND_LENGTH (?a @ ?rest) = ?a"
    by (rule fgets_long) (auto simp: MAX_COMMAND_LENGTH_def)
  have lines: "lines_of ?rest = [''END'' @ newline, ''BAR'' @ newline]"
    by (simp add: lines_of.simps newline_def)
  have "fgets_all MAX_COMMAND_LENGTH ?rest = lines_of ?rest"
    by (rule fgets_all_lines) (unfold lines, simp_all add: MAX_COMMAND_LENGTH_def newline_def)
  then have rest: "fgets_all MAX_COMMAND_LENGTH ?rest = [''END'' @ newline, ''BAR'' @ newline]"
    using lines by simp
  have "fgets_all MAX_COMMAND_LENGTH (?a @ ?rest) = ?a # fgets_all MAX_COMMAND_LENGTH ?rest"
  proof (rule fgets_all_step)
    show "?a @ ?rest \<noteq> []" by simp
    show "1 < MAX_COMMAND_LENGTH" by (simp add: MAX_COMMAND_LENGTH_def)
    show "fgets MAX_COMMAND_LENGTH (?a @ ?rest) = ?a" by (rule first)
    show "drop (length ?a) (?a @ ?rest) = ?rest" by simp
  qed
  then show ?thesis
    unfolding inp rest .
qed

lemma long_input_lines: "lines_of long_input = [long_line, ''BAR'' @ newline]"
proof -
  have "lines_of ((''FOO'' @ replicate 252 CHR '' '' @ ''END'') @ CHR 0x0A # ''BAR'' @ newline) =
      ((''FOO'' @ replicate 252 CHR '' '' @ ''END'') @ [CHR 0x0A]) # lines_of (''BAR'' @ newline)"
    by (rule lines_of_line) auto
  moreover have "lines_of (''BAR'' @ newline) = [''BAR'' @ newline]"
    by (simp add: lines_of.simps newline_def)
  ultimately show ?thesis
    by (simp add: long_input_def long_line_def newline_def)
qed

lemma long_input_verbs:
  "verb (''FOO'' @ replicate 252 CHR '' '') = Some ''FOO''"
  "verb long_line = Some ''FOO''"
  "verb (''END'' @ newline) = Some ''END''"
  "verb (''BAR'' @ newline) = Some ''BAR''"
proof -
  have space: "isspace CHR '' ''" "isspace CHR 0x0A"
    by (simp_all add: isspace_def)
  have foo: "\<forall>c \<in> set ''FOO''. \<not> isspace c" and end': "\<forall>c \<in> set ''END''. \<not> isspace c"
    and bar: "\<forall>c \<in> set ''BAR''. \<not> isspace c"
    by (simp_all add: isspace_def)
  have "leading_token (''FOO'' @ replicate 252 CHR '' '') = Some ''FOO''"
    using foo space by (intro leading_token_prefix) simp_all
  moreover have "c_string (''FOO'' @ replicate 252 CHR '' '') = ''FOO'' @ replicate 252 CHR '' ''"
    by (rule c_string_id) auto
  ultimately show "verb (''FOO'' @ replicate 252 CHR '' '') = Some ''FOO''"
    by (simp only: verb_def)
  have "leading_token (''FOO'' @ replicate 252 CHR '' '' @ ''END'' @ newline) = Some ''FOO''"
    using foo space by (intro leading_token_prefix) simp_all
  moreover have "c_string long_line = long_line"
    by (rule c_string_id) (auto simp: long_line_def newline_def)
  ultimately show "verb long_line = Some ''FOO''"
    by (simp only: verb_def long_line_def)
  have "leading_token (''END'' @ newline) = Some ''END''"
    using end' space by (intro leading_token_prefix) (simp_all add: newline_def)
  moreover have "c_string (''END'' @ newline) = ''END'' @ newline"
    by (rule c_string_id) (auto simp: newline_def)
  ultimately show "verb (''END'' @ newline) = Some ''END''"
    by (simp only: verb_def)
  have "leading_token (''BAR'' @ newline) = Some ''BAR''"
    using bar space by (intro leading_token_prefix) (simp_all add: newline_def)
  moreover have "c_string (''BAR'' @ newline) = ''BAR'' @ newline"
    by (rule c_string_id) (auto simp: newline_def)
  ultimately show "verb (''BAR'' @ newline) = Some ''BAR''"
    by (simp only: verb_def)
qed

lemma unknown_FOO_BAR:
  "verb command = Some ''FOO'' \<Longrightarrow>
   process_line command s = Inr (Some (''Unknown command: '' @ ''FOO'' @ newline, s))"
  "verb command = Some ''BAR'' \<Longrightarrow>
   process_line command s = Inr (Some (''Unknown command: '' @ ''BAR'' @ newline, s))"
  by (rule process_line_unknown; simp add: command_formats_def)+

text \<open>
  A NUL in the buffer ends the string the program sees: \<^verbatim>\<open>END\<close>, a NUL and more characters
  is the command \<^verbatim>\<open>END\<close>.
\<close>

lemma verb_NUL:
  assumes "t \<noteq> []" "\<forall>c \<in> set t. \<not> isspace c \<and> c \<noteq> CHR 0x00"
  shows "verb (t @ CHR 0x00 # rest) = Some t"
proof -
  have "c_string (t @ CHR 0x00 # rest) = t"
    using assms(2) by (intro c_string_NUL) auto
  moreover have "leading_token (t @ []) = Some t"
    using assms by (intro leading_token_prefix) auto
  ultimately show ?thesis
    by (simp add: verb_def)
qed

lemma main_NUL_example:
  "main (''END'' @ CHR 0x00 # ''X'' @ newline @ ''FOO'' @ newline) = Inr []"
proof -
  let ?rest = "''X'' @ newline @ ''FOO'' @ newline"
  have v: "verb (''END'' @ CHR 0x00 # ''X'' @ newline) = Some ''END''"
    by (rule verb_NUL) (simp_all add: isspace_def)
  have pieces: "fgets_all MAX_COMMAND_LENGTH (''END'' @ CHR 0x00 # ?rest) =
      [''END'' @ CHR 0x00 # ''X'' @ newline, ''FOO'' @ newline]"
    by (simp add: fgets_all.simps fgets_def MAX_COMMAND_LENGTH_def newline_def)
  have before: "takeWhile (\<lambda>command. verb command \<noteq> Some ''END'')
      [''END'' @ CHR 0x00 # ''X'' @ newline, ''FOO'' @ newline] = []"
    unfolding takeWhile.simps v by simp
  show ?thesis
    unfolding main_takeWhile pieces before by (simp add: output_of_def)
qed

section \<open>The properties\<close>

text \<open>
  C1. Let \<^verbatim>\<open>add_student\<close> succeed in a well-formed store, that is, print "Student: <id> added".
  Then the id was not present, name and faculty are shorter than their arrays, the faculty
  is one of the six, the name is alphabetic, and \<^verbatim>\<open>search_student\<close> for the id prints the line
  with exactly this id, name and faculty, immediately afterwards and also after any sequence of
  further calls that all return and among which there is no \<^verbatim>\<open>delete_student\<close> of this id.
\<close>

theorem search_after_add_student:
  assumes "valid_store s"
    and "add_student id' name faculty s =
           Inr (''Student: '' @ fmt_d id' @ '' added'' @ newline, s1)"
    and "Delete_student id' \<notin> set cs"
    and "run_calls cs s1 = Inr (out, s2)"
  shows "search_student id' s2 =
           ''ID: '' @ fmt_d id' @ '', Name: '' @ name @ '', Faculty: '' @ faculty @ newline \<and>
         search_student id' s1 =
           ''ID: '' @ fmt_d id' @ '', Name: '' @ name @ '', Faculty: '' @ faculty @ newline \<and>
         find_student s id' = None \<and>
         length name < MAX_NAME_LENGTH \<and> length faculty < MAX_FACULTY_LENGTH \<and>
         faculty \<in> {''SoftwareEngineering'', ''ComputerScience'', ''DataScience'',
                      ''CyberSecurity'', ''InformationTechnology'',
                      ''ProgrammingLanguagesAndCompilers''} \<and>
         name_isalpha name"
proof -
  let ?R = "\<lparr>Student_id = id', Student_name = name, Student_faculty = faculty\<rparr>"
  let ?P = "\<lambda>st. Student_id st = id'"
  note added = add_student_added[OF assms(2)]
  have cap: "student_count s < MAX_STUDENTS" and fresh: "find_student s id' = None"
    and s1: "s1 = s\<lparr>students := (students s)[student_count s := ?R],
                     student_count := student_count s + 1\<rparr>"
    using added by simp_all
  have v1: "valid_store s1"
    using add_student_live(1)[OF assms(1) cap, of ?R] s1 by simp
  have "find ?P (live_students s) = None"
    using fresh find_student_None_live[OF assms(1), of id'] by (auto simp: find_None_iff)
  then have f1: "find ?P (live_students s1) = Some ?R"
    using add_student_live(2)[OF assms(1) cap, of ?R] s1 by (simp add: find_append_case)
  have "valid_store s2 \<and> find ?P (live_students s2) = Some ?R"
    using v1 f1 assms(4,3) by (rule run_calls_keeps_student)
  then have "search_student id' s2 = student_line ?R"
    by (simp add: search_student_find)
  moreover have "search_student id' s1 = student_line ?R"
    using v1 f1 by (simp add: search_student_find)
  ultimately show ?thesis
    using added by (simp add: student_line_def)
qed

theorem search_after_add_student_witness:
  "valid_store example_store \<and>
   add_student 5 ''Eve'' ''CyberSecurity'' example_store =
     Inr (''Student: '' @ fmt_d 5 @ '' added'' @ newline,
          example_store\<lparr>students := (students example_store)
                           [2 := \<lparr>Student_id = 5, Student_name = ''Eve'',
                                  Student_faculty = ''CyberSecurity''\<rparr>],
                         student_count := 3\<rparr>) \<and>
   Delete_student 5 \<notin> set [Delete_student 3, Update_grade 10 1 90] \<and>
   search_student 5
     (snd (update_grade 10 1 90 (snd (delete_student 3
        (example_store\<lparr>students := (students example_store)
                           [2 := \<lparr>Student_id = 5, Student_name = ''Eve'',
                                  Student_faculty = ''CyberSecurity''\<rparr>],
                         student_count := 3\<rparr>))))) =
     ''ID: 5, Name: Eve, Faculty: CyberSecurity'' @ newline"
proof -
  let ?s1 = "example_store\<lparr>students := (students example_store)
                           [2 := \<lparr>Student_id = 5, Student_name = ''Eve'',
                                  Student_faculty = ''CyberSecurity''\<rparr>],
                         student_count := 3\<rparr>"
  let ?cs = "[Delete_student 3, Update_grade 10 1 90]"
  have add: "add_student 5 ''Eve'' ''CyberSecurity'' example_store =
     Inr (''Student: '' @ fmt_d 5 @ '' added'' @ newline, ?s1)"
    by (simp add: add_student_def example_store_find_student_5 isalpha_def strcpy_def
        example_store_simps MAX_NAME_LENGTH_def MAX_FACULTY_LENGTH_def MAX_STUDENTS_def)
  have nodel: "Delete_student 5 \<notin> set ?cs" by simp
  have run: "run_calls ?cs ?s1 =
      Inr (fst (delete_student 3 ?s1) @ fst (update_grade 10 1 90 (snd (delete_student 3 ?s1))) @ [],
           snd (update_grade 10 1 90 (snd (delete_student 3 ?s1))))"
    by (simp add: split_beta)
  have five: "fmt_d 5 = ''5''"
    by (simp add: fmt_d_def digits.simps digit_char_def)
  from search_after_add_student[OF example_store_valid add nodel run]
  have "search_student 5 (snd (update_grade 10 1 90 (snd (delete_student 3 ?s1)))) =
     ''ID: 5, Name: Eve, Faculty: CyberSecurity'' @ newline"
    by (simp add: five)
  with example_store_valid add nodel show ?thesis by blast
qed

text \<open>
  C2. Whenever a student with the given id is among the live entries, \<^verbatim>\<open>add_student\<close> prints
  "Student: <id> already exists" and returns the store as it was, whatever the name and the
  faculty are: the test for the id comes first.
\<close>

theorem add_student_duplicate_id:
  assumes "i < student_count s" and "Student_id (students s ! i) = id'"
  shows "add_student id' name faculty s =
           Inr (''Student: '' @ fmt_d id' @ '' already exists'' @ newline, s)"
proof -
  have "find_student s id' \<noteq> None"
    using assms by (auto simp: find_student_None)
  then show ?thesis
    by (simp add: add_student_def)
qed

theorem add_student_duplicate_id_witness:
  "0 < student_count example_store \<and> Student_id (students example_store ! 0) = 1 \<and>
   add_student 1 ''J0hn'' ''Nowhere'' example_store =
     Inr (''Student: 1 already exists'' @ newline, example_store)"
  using add_student_duplicate_id[of 0 example_store 1 "''J0hn''" "''Nowhere''"]
  by (simp add: example_store_simps fmt_d_def digits.simps digit_char_def)

text \<open>
  C3. In a store whose live students have distinct ids (every reachable store is one, lemma
  \<open>reachable_invariant\<close>) and where the id is present, \<^verbatim>\<open>delete_student\<close> prints
  "Student: <id> deleted" and leaves as live students exactly the others, one fewer and in
  their old order, and as live grades exactly those of other students, in their old order;
  the exams are untouched. Afterwards \<^verbatim>\<open>search_student\<close> for the id answers
  "Student not found", and so does \<^verbatim>\<open>search_grade\<close> for the id with every exam id: no grade
  of the deleted student can be found.
\<close>

theorem delete_student_cascade:
  assumes "valid_store s"
    and "distinct (map Student_id (live_students s))"
    and "id' \<in> Student_id ` set (live_students s)"
  shows "delete_student id' s =
           (''Student: '' @ fmt_d id' @ '' deleted'' @ newline, snd (delete_student id' s)) \<and>
         live_students (snd (delete_student id' s)) =
           filter (\<lambda>st. Student_id st \<noteq> id') (live_students s) \<and>
         length (live_students (snd (delete_student id' s))) = length (live_students s) - 1 \<and>
         live_grades (snd (delete_student id' s)) =
           filter (\<lambda>g. Grade_student_id g \<noteq> id') (live_grades s) \<and>
         live_exams (snd (delete_student id' s)) = live_exams s \<and>
         valid_store (snd (delete_student id' s)) \<and>
         search_student id' (snd (delete_student id' s)) = ''Student not found'' @ newline \<and>
         (\<forall>exam_id. search_grade exam_id id' (snd (delete_student id' s)) =
            ''Student not found'' @ newline)"
proof -
  let ?s' = "snd (delete_student id' s)"
  let ?L = "live_students s"
  from assms(1,3) have "find_student s id' \<noteq> None"
    by (simp add: find_student_None_live)
  then obtain m where m: "find_student s id' = Some m" by auto
  note live = delete_student_live[OF assms(1) m]
  have mL: "m < length ?L" "Student_id (?L ! m) = id'"
    using m assms(1) by (simp_all add: find_student_Some live_students_def valid_store_def)
  have students: "live_students ?s' = filter (\<lambda>st. Student_id st \<noteq> id') ?L"
    using filter_remove_nth[OF assms(2) mL(1)] mL(2) live(3) by simp
  have len: "length (live_students ?s') = length ?L - 1"
    using mL(1) by (simp add: live(3))
  have gone: "find_student ?s' id' = None"
    using live(2) students by (auto simp: find_student_None_live)
  have "search_student id' ?s' = ''Student not found'' @ newline"
    using gone by (simp add: search_student_def)
  moreover have "\<forall>exam_id. search_grade exam_id id' ?s' = ''Student not found'' @ newline"
    using gone by (simp add: search_grade_absent)
  ultimately show ?thesis
    using live(1,2,4,5) students len by simp
qed

theorem delete_student_cascade_witness:
  "valid_store example_store \<and>
   distinct (map Student_id (live_students example_store)) \<and>
   1 \<in> Student_id ` set (live_students example_store) \<and>
   live_students (snd (delete_student 1 example_store)) =
     [\<lparr>Student_id = 3, Student_name = ''Ann'', Student_faculty = ''DataScience''\<rparr>] \<and>
   live_grades (snd (delete_student 1 example_store)) =
     [\<lparr>Grade_exam_id = 10, Grade_student_id = 3, Grade_grade = 77\<rparr>] \<and>
   search_student 1 (snd (delete_student 1 example_store)) = ''Student not found'' @ newline \<and>
   search_grade 10 1 (snd (delete_student 1 example_store)) = ''Student not found'' @ newline"
  using delete_student_cascade[of example_store 1]
  by (simp add: example_store_valid example_store_live)

text \<open>
  C4. For a new value in [0,100]: when \<open>k\<close> is the first index below \<^verbatim>\<open>grade_count\<close> whose
  grade has the given exam and student id, \<^verbatim>\<open>update_grade\<close> prints "Grade <v> updated for the
  student: <id>" and changes the store only in the value of the grade at \<open>k\<close>, and running the
  same update again gives the same output and the same store; when no live grade has the
  pair, it prints "Student not found" and returns the store as it was.
\<close>

theorem update_grade_first_match:
  assumes "0 \<le> new_grade" and "new_grade \<le> 100" and "valid_store s"
  shows
    "(\<forall>k. k < grade_count s \<and>
          Grade_exam_id (grades s ! k) = exam_id \<and> Grade_student_id (grades s ! k) = student_id \<and>
          (\<forall>j < k. \<not> (Grade_exam_id (grades s ! j) = exam_id \<and>
                       Grade_student_id (grades s ! j) = student_id)) \<longrightarrow>
          update_grade exam_id student_id new_grade s =
            (''Grade '' @ fmt_d new_grade @ '' updated for the student: '' @ fmt_d student_id
               @ newline,
             s\<lparr>grades := (grades s)[k := (grades s ! k)\<lparr>Grade_grade := new_grade\<rparr>]\<rparr>) \<and>
          live_grades (snd (update_grade exam_id student_id new_grade s)) =
            (live_grades s)[k := (live_grades s ! k)\<lparr>Grade_grade := new_grade\<rparr>] \<and>
          update_grade exam_id student_id new_grade
              (snd (update_grade exam_id student_id new_grade s)) =
            update_grade exam_id student_id new_grade s) \<and>
     ((\<forall>j < grade_count s. \<not> (Grade_exam_id (grades s ! j) = exam_id \<and>
                                Grade_student_id (grades s ! j) = student_id)) \<longrightarrow>
          update_grade exam_id student_id new_grade s = (''Student not found'' @ newline, s))"
proof -
  have found: "update_grade exam_id student_id new_grade s =
            (''Grade '' @ fmt_d new_grade @ '' updated for the student: '' @ fmt_d student_id
               @ newline,
             s\<lparr>grades := (grades s)[k := (grades s ! k)\<lparr>Grade_grade := new_grade\<rparr>]\<rparr>) \<and>
          live_grades (snd (update_grade exam_id student_id new_grade s)) =
            (live_grades s)[k := (live_grades s ! k)\<lparr>Grade_grade := new_grade\<rparr>] \<and>
          update_grade exam_id student_id new_grade
              (snd (update_grade exam_id student_id new_grade s)) =
            update_grade exam_id student_id new_grade s"
    if k: "k < grade_count s" "Grade_exam_id (grades s ! k) = exam_id"
      "Grade_student_id (grades s ! k) = student_id"
      "\<forall>j < k. \<not> (Grade_exam_id (grades s ! j) = exam_id \<and>
                       Grade_student_id (grades s ! j) = student_id)" for k
  proof -
    let ?g = "(grades s ! k)\<lparr>Grade_grade := new_grade\<rparr>"
    have klen: "k < length (grades s)"
      using k(1) assms(3) by (simp add: valid_store_def)
    have nth: "live_grades s ! k = grades s ! k"
      using k(1) by (simp add: live_grades_def)
    have r1: "update_grade exam_id student_id new_grade s =
            (''Grade '' @ fmt_d new_grade @ '' updated for the student: '' @ fmt_d student_id
               @ newline, s\<lparr>grades := (grades s)[k := ?g]\<rparr>)"
      using assms(1,2) k by (rule update_grade_at_first)
    moreover have "live_grades (snd (update_grade exam_id student_id new_grade s)) =
            (live_grades s)[k := (live_grades s ! k)\<lparr>Grade_grade := new_grade\<rparr>]"
      using update_grade_live(2)[OF assms(3), of k ?g] by (simp add: r1 nth)
    moreover have "update_grade exam_id student_id new_grade
              (snd (update_grade exam_id student_id new_grade s)) =
            update_grade exam_id student_id new_grade s"
      using assms(1,2) k(1) klen k(2,3,4) by (rule update_grade_again)
    ultimately show ?thesis by simp
  qed
  have none: "update_grade exam_id student_id new_grade s = (''Student not found'' @ newline, s)"
    if "\<forall>j < grade_count s. \<not> (Grade_exam_id (grades s ! j) = exam_id \<and>
                                Grade_student_id (grades s ! j) = student_id)"
    using assms(1,2) that by (rule update_grade_no_match)
  show ?thesis
  proof (intro conjI allI impI)
    fix k
    assume "k < grade_count s \<and>
          Grade_exam_id (grades s ! k) = exam_id \<and> Grade_student_id (grades s ! k) = student_id \<and>
          (\<forall>j < k. \<not> (Grade_exam_id (grades s ! j) = exam_id \<and>
                       Grade_student_id (grades s ! j) = student_id))"
    then have k: "k < grade_count s" "Grade_exam_id (grades s ! k) = exam_id"
      "Grade_student_id (grades s ! k) = student_id"
      "\<forall>j < k. \<not> (Grade_exam_id (grades s ! j) = exam_id \<and>
                       Grade_student_id (grades s ! j) = student_id)"
      by simp_all
    from found[OF k]
    show "update_grade exam_id student_id new_grade s =
            (''Grade '' @ fmt_d new_grade @ '' updated for the student: '' @ fmt_d student_id
               @ newline,
             s\<lparr>grades := (grades s)[k := (grades s ! k)\<lparr>Grade_grade := new_grade\<rparr>]\<rparr>)"
      "live_grades (snd (update_grade exam_id student_id new_grade s)) =
            (live_grades s)[k := (live_grades s ! k)\<lparr>Grade_grade := new_grade\<rparr>]"
      "update_grade exam_id student_id new_grade
              (snd (update_grade exam_id student_id new_grade s)) =
            update_grade exam_id student_id new_grade s"
      by blast+
  next
    assume "\<forall>j < grade_count s. \<not> (Grade_exam_id (grades s ! j) = exam_id \<and>
                                Grade_student_id (grades s ! j) = student_id)"
    then show "update_grade exam_id student_id new_grade s = (''Student not found'' @ newline, s)"
      by (rule none)
  qed
qed

theorem update_grade_first_match_witness:
  "(0::int) \<le> 90 \<and> (90::int) \<le> 100 \<and> valid_store example_store \<and>
   update_grade 10 1 90 example_store =
     (''Grade 90 updated for the student: 1'' @ newline,
      example_store\<lparr>grades := (grades example_store)
         [0 := \<lparr>Grade_exam_id = 10, Grade_student_id = 1, Grade_grade = 90\<rparr>]\<rparr>) \<and>
   live_grades (snd (update_grade 10 1 90 example_store)) =
     [\<lparr>Grade_exam_id = 10, Grade_student_id = 1, Grade_grade = 90\<rparr>,
      \<lparr>Grade_exam_id = 10, Grade_student_id = 3, Grade_grade = 77\<rparr>,
      \<lparr>Grade_exam_id = 10, Grade_student_id = 1, Grade_grade = 60\<rparr>] \<and>
   update_grade 10 1 90 (snd (update_grade 10 1 90 example_store)) =
     update_grade 10 1 90 example_store \<and>
   update_grade 11 1 90 example_store = (''Student not found'' @ newline, example_store)"
proof -
  note inst = update_grade_first_match[of 90 example_store, OF _ _ example_store_valid]
  have a: "(0::int) \<le> 90" "(90::int) \<le> 100" by simp_all
  have hyp: "0 < grade_count example_store \<and>
      Grade_exam_id (grades example_store ! 0) = 10 \<and>
      Grade_student_id (grades example_store ! 0) = 1 \<and>
      (\<forall>j < 0. \<not> (Grade_exam_id (grades example_store ! j) = 10 \<and>
                    Grade_student_id (grades example_store ! j) = 1))"
    by (simp add: example_store_simps)
  note raw = inst[of 10 1, OF a, THEN conjunct1, rule_format, OF hyp]
  have c1: "update_grade 10 1 90 example_store =
     (''Grade 90 updated for the student: 1'' @ newline,
      example_store\<lparr>grades := (grades example_store)
         [0 := \<lparr>Grade_exam_id = 10, Grade_student_id = 1, Grade_grade = 90\<rparr>]\<rparr>)"
    using raw[THEN conjunct1]
    by (simp add: example_store_simps fmt_d_def digits.simps digit_char_def)
  have c2: "live_grades (snd (update_grade 10 1 90 example_store)) =
     [\<lparr>Grade_exam_id = 10, Grade_student_id = 1, Grade_grade = 90\<rparr>,
      \<lparr>Grade_exam_id = 10, Grade_student_id = 3, Grade_grade = 77\<rparr>,
      \<lparr>Grade_exam_id = 10, Grade_student_id = 1, Grade_grade = 60\<rparr>]"
    using raw[THEN conjunct2, THEN conjunct1]
    by (simp add: example_store_live)
  note c3 = raw[THEN conjunct2, THEN conjunct2]
  have none: "\<forall>j < grade_count example_store.
      \<not> (Grade_exam_id (grades example_store ! j) = 11 \<and>
         Grade_student_id (grades example_store ! j) = 1)"
    by (simp add: example_store_simps less_Suc_eq numeral_3_eq_3
        example_store_simps[unfolded One_nat_def] example_store_simps(12)[unfolded numeral_2_eq_2])
  note c4 = inst[of 11 1, OF a, THEN conjunct2, THEN mp, OF none]
  show ?thesis
    by (intro conjI) (fact a example_store_valid c1 c2 c3 c4)+
qed

text \<open>
  C5. A grade value below 0 or above 100 makes both \<^verbatim>\<open>add_grade\<close> and \<^verbatim>\<open>update_grade\<close> print
  "Invalid grade" and return the store as it was, in every store and for every exam and
  student id: the range test comes before any lookup.
\<close>

theorem invalid_grade_rejected:
  assumes "grade_value < 0 \<or> grade_value > 100"
  shows "add_grade exam_id student_id grade_value s = Inr (''Invalid grade'' @ newline, s) \<and>
         update_grade exam_id student_id grade_value s = (''Invalid grade'' @ newline, s)"
  using assms by (auto simp: add_grade_def update_grade_def)

theorem invalid_grade_rejected_witness:
  "((101::int) < 0 \<or> (101::int) > 100) \<and>
   find_student init_store 7 = None \<and> find_exam init_store 9 = None \<and>
   add_grade 9 7 101 init_store = Inr (''Invalid grade'' @ newline, init_store) \<and>
   update_grade 9 7 101 init_store = (''Invalid grade'' @ newline, init_store)"
  using invalid_grade_rejected[of 101 9 7 init_store]
  by (simp add: find_student_None find_exam_None init_store_def)

text \<open>
  C6 fails as stated where the model faults: with all \<^verbatim>\<open>MAX_EXAMS\<close> slots taken \<^verbatim>\<open>add_exam\<close> with
  a fresh id and short strings writes \<^verbatim>\<open>exams[100]\<close> instead of inserting, and \<^verbatim>\<open>update_exam\<close>
  copies a \<^verbatim>\<open>new_info\<close> of 100 characters into the 100 bytes of \<^verbatim>\<open>info\<close>.
\<close>

theorem add_exam_full_counterexample:
  "reachable full_store \<and> exam_count full_store = MAX_EXAMS \<and>
   find_exam full_store 100 = None \<and>
   length ''WRITTEN'' < MAX_TYPE_LENGTH \<and> length ''x'' < MAX_NAME_LENGTH \<and>
   add_exam 100 ''WRITTEN'' ''x'' full_store = Inl OutOfBounds \<and>
   valid_store example_store \<and>
   find_exam example_store 10 = Some 0 \<and>
   update_exam 10 ''DIGITAL'' (replicate 100 (CHR ''y'')) example_store = Inl BufferOverflow"
proof -
  have "add_exam 100 ''WRITTEN'' ''x'' full_store = Inl OutOfBounds"
    by (simp add: add_exam_def full_store_find full_store_counts MAX_TYPE_LENGTH_def
        MAX_NAME_LENGTH_def MAX_EXAMS_def)
  moreover have f: "find_exam example_store 10 = Some 0"
    by (simp add: find_exam_Some example_store_simps)
  moreover have "update_exam 10 ''DIGITAL'' (replicate 100 (CHR ''y'')) example_store =
      Inl BufferOverflow"
    by (simp add: update_exam_def f strcpy_def MAX_TYPE_LENGTH_def MAX_NAME_LENGTH_def)
  ultimately show ?thesis
    by (simp add: full_store_reachable full_store_counts example_store_valid full_store_find
        MAX_TYPE_LENGTH_def MAX_NAME_LENGTH_def MAX_EXAMS_def)
qed

text \<open>
  C6, amended. In a well-formed store with a free slot (\<^verbatim>\<open>exam_count < MAX_EXAMS\<close>), \<^verbatim>\<open>add_exam\<close>
  with a fresh id, a type shorter than \<^verbatim>\<open>MAX_TYPE_LENGTH\<close> and an info shorter than
  \<^verbatim>\<open>MAX_NAME_LENGTH\<close> prints "Exam: <id> added" and appends the exam to the live ones, whatever
  the type is. \<^verbatim>\<open>update_exam\<close> on an existing exam prints "Invalid exam type" and changes
  nothing for every type other than \<^verbatim>\<open>WRITTEN\<close> and \<^verbatim>\<open>DIGITAL\<close>; for these two and a
  \<^verbatim>\<open>new_info\<close> shorter than \<^verbatim>\<open>MAX_NAME_LENGTH\<close> it prints "Exam: <id> updated" and overwrites
  type and info of the exam in its place.
\<close>

theorem exam_type_checked_on_update_only:
  assumes "valid_store s"
  shows
    "(find_exam s id' = None \<and> length type < MAX_TYPE_LENGTH \<and> length info < MAX_NAME_LENGTH \<and>
      exam_count s < MAX_EXAMS \<longrightarrow>
        add_exam id' type info s =
          Inr (''Exam: '' @ fmt_d id' @ '' added'' @ newline,
               s\<lparr>exams := (exams s)[exam_count s :=
                     \<lparr>Exam_id = id', Exam_type = type, Exam_info = info\<rparr>],
                 exam_count := exam_count s + 1\<rparr>) \<and>
        live_exams (s\<lparr>exams := (exams s)[exam_count s :=
                     \<lparr>Exam_id = id', Exam_type = type, Exam_info = info\<rparr>],
                 exam_count := exam_count s + 1\<rparr>) =
          live_exams s @ [\<lparr>Exam_id = id', Exam_type = type, Exam_info = info\<rparr>]) \<and>
     (\<forall>index. find_exam s id' = Some index \<longrightarrow>
        (new_type \<noteq> ''WRITTEN'' \<and> new_type \<noteq> ''DIGITAL'' \<longrightarrow>
           update_exam id' new_type new_info s = Inr (''Invalid exam type'' @ newline, s)) \<and>
        ((new_type = ''WRITTEN'' \<or> new_type = ''DIGITAL'') \<and>
         length new_info < MAX_NAME_LENGTH \<longrightarrow>
           update_exam id' new_type new_info s =
             Inr (''Exam: '' @ fmt_d id' @ '' updated'' @ newline,
                  s\<lparr>exams := (exams s)[index :=
                        (exams s ! index)\<lparr>Exam_type := new_type, Exam_info := new_info\<rparr>]\<rparr>) \<and>
           live_exams (s\<lparr>exams := (exams s)[index :=
                        (exams s ! index)\<lparr>Exam_type := new_type, Exam_info := new_info\<rparr>]\<rparr>) =
             (live_exams s)[index :=
                \<lparr>Exam_id = id', Exam_type = new_type, Exam_info = new_info\<rparr>]))"
proof (intro conjI allI impI)
  assume a: "find_exam s id' = None \<and> length type < MAX_TYPE_LENGTH \<and>
      length info < MAX_NAME_LENGTH \<and> exam_count s < MAX_EXAMS"
  then show "add_exam id' type info s =
          Inr (''Exam: '' @ fmt_d id' @ '' added'' @ newline,
               s\<lparr>exams := (exams s)[exam_count s :=
                     \<lparr>Exam_id = id', Exam_type = type, Exam_info = info\<rparr>],
                 exam_count := exam_count s + 1\<rparr>)"
    by (simp add: add_exam_def strcpy_def)
  from a show "live_exams (s\<lparr>exams := (exams s)[exam_count s :=
                     \<lparr>Exam_id = id', Exam_type = type, Exam_info = info\<rparr>],
                 exam_count := exam_count s + 1\<rparr>) =
          live_exams s @ [\<lparr>Exam_id = id', Exam_type = type, Exam_info = info\<rparr>]"
    using add_exam_live(2)[OF assms] by simp
next
  fix index
  assume f: "find_exam s id' = Some index"
    and t: "new_type \<noteq> ''WRITTEN'' \<and> new_type \<noteq> ''DIGITAL''"
  then show "update_exam id' new_type new_info s = Inr (''Invalid exam type'' @ newline, s)"
    by (simp add: update_exam_def)
next
  fix index
  assume f: "find_exam s id' = Some index"
    and t: "(new_type = ''WRITTEN'' \<or> new_type = ''DIGITAL'') \<and> length new_info < MAX_NAME_LENGTH"
  from t have "length new_type < MAX_TYPE_LENGTH"
    by (auto simp: MAX_TYPE_LENGTH_def)
  with f t show "update_exam id' new_type new_info s =
             Inr (''Exam: '' @ fmt_d id' @ '' updated'' @ newline,
                  s\<lparr>exams := (exams s)[index :=
                        (exams s ! index)\<lparr>Exam_type := new_type, Exam_info := new_info\<rparr>]\<rparr>)"
    by (auto simp: update_exam_def strcpy_def)
next
  fix index
  assume f: "find_exam s id' = Some index"
    and t: "(new_type = ''WRITTEN'' \<or> new_type = ''DIGITAL'') \<and> length new_info < MAX_NAME_LENGTH"
  have idx: "index < exam_count s" "Exam_id (exams s ! index) = id'"
    using f by (simp_all add: find_exam_Some)
  have "(exams s ! index)\<lparr>Exam_type := new_type, Exam_info := new_info\<rparr> =
      \<lparr>Exam_id = id', Exam_type = new_type, Exam_info = new_info\<rparr>"
    using idx(2) by (cases "exams s ! index") simp
  then show "live_exams (s\<lparr>exams := (exams s)[index :=
                        (exams s ! index)\<lparr>Exam_type := new_type, Exam_info := new_info\<rparr>]\<rparr>) =
             (live_exams s)[index :=
                \<lparr>Exam_id = id', Exam_type = new_type, Exam_info = new_info\<rparr>]"
    using update_exam_live(2)[OF assms, of index] by simp
qed

theorem exam_type_checked_on_update_only_witness:
  "valid_store example_store \<and>
   add_exam 11 ''ORAL'' ''Final'' example_store =
     Inr (''Exam: '' @ fmt_d 11 @ '' added'' @ newline,
          example_store\<lparr>exams := (exams example_store)[exam_count example_store :=
                            \<lparr>Exam_id = 11, Exam_type = ''ORAL'', Exam_info = ''Final''\<rparr>],
                         exam_count := exam_count example_store + 1\<rparr>) \<and>
   update_exam 10 ''ORAL'' ''Final'' example_store =
     Inr (''Invalid exam type'' @ newline, example_store) \<and>
   update_exam 10 ''DIGITAL'' ''Final'' example_store =
     Inr (''Exam: '' @ fmt_d 10 @ '' updated'' @ newline,
          example_store\<lparr>exams := (exams example_store)[0 :=
             (exams example_store ! 0)\<lparr>Exam_type := ''DIGITAL'', Exam_info := ''Final''\<rparr>]\<rparr>) \<and>
   live_exams (example_store\<lparr>exams := (exams example_store)[0 :=
             (exams example_store ! 0)\<lparr>Exam_type := ''DIGITAL'', Exam_info := ''Final''\<rparr>]\<rparr>) =
     [\<lparr>Exam_id = 10, Exam_type = ''DIGITAL'', Exam_info = ''Final''\<rparr>]"
proof -
  note inst = exam_type_checked_on_update_only[OF example_store_valid]
  have fresh: "find_exam example_store 11 = None \<and> length ''ORAL'' < MAX_TYPE_LENGTH \<and>
      length ''Final'' < MAX_NAME_LENGTH \<and> exam_count example_store < MAX_EXAMS"
    by (simp add: find_exam_None example_store_simps MAX_TYPE_LENGTH_def MAX_NAME_LENGTH_def
        MAX_EXAMS_def)
  have f: "find_exam example_store 10 = Some 0"
    by (simp add: find_exam_Some example_store_simps)
  note c1 = inst[of 11 "''ORAL''" "''Final''", THEN conjunct1, THEN mp, OF fresh, THEN conjunct1]
  have bad: "''ORAL'' \<noteq> ''WRITTEN'' \<and> ''ORAL'' \<noteq> ''DIGITAL''" by simp
  note c2 = inst[of 10 _ _ "''ORAL''" "''Final''", THEN conjunct2, rule_format, OF f,
      THEN conjunct1, THEN mp, OF bad]
  have good: "(''DIGITAL'' = ''WRITTEN'' \<or> ''DIGITAL'' = ''DIGITAL'') \<and>
      length ''Final'' < MAX_NAME_LENGTH"
    by (simp add: MAX_NAME_LENGTH_def)
  note c34 = inst[of 10 _ _ "''DIGITAL''" "''Final''", THEN conjunct2, rule_format, OF f,
      THEN conjunct2, THEN mp, OF good]
  have c4: "live_exams (example_store\<lparr>exams := (exams example_store)[0 :=
             (exams example_store ! 0)\<lparr>Exam_type := ''DIGITAL'', Exam_info := ''Final''\<rparr>]\<rparr>) =
     [\<lparr>Exam_id = 10, Exam_type = ''DIGITAL'', Exam_info = ''Final''\<rparr>]"
    using c34[THEN conjunct2] by (simp add: example_store_live)
  show ?thesis
    by (intro conjI) (fact example_store_valid c1 c2 c34[THEN conjunct1] c4)+
qed

text \<open>
  C7 fails as stated. \<^verbatim>\<open>main\<close> processes not the lines of the input but the buffers \<^verbatim>\<open>fgets\<close>
  fills, of at most 255 characters each. The input of the example has two lines, with the
  verbs \<^verbatim>\<open>FOO\<close> and \<^verbatim>\<open>BAR\<close>; no line has the verb \<^verbatim>\<open>END\<close>, so the responses of the lines before
  the first \<^verbatim>\<open>END\<close> are the responses of both. But the first line arrives in two buffers, the
  second of which holds \<^verbatim>\<open>END\<close>, and the run stops after the response to the first.
\<close>

theorem long_line_counterexample:
  "lines_of long_input = [long_line, ''BAR'' @ newline] \<and>
   map verb (lines_of long_input) = [Some ''FOO'', Some ''BAR''] \<and>
   output_of (concat_responses
      (takeWhile (\<lambda>command. verb command \<noteq> Some ''END'') (lines_of long_input)) init_store) =
     Inr (''Unknown command: FOO'' @ newline @ ''Unknown command: BAR'' @ newline) \<and>
   fgets_all MAX_COMMAND_LENGTH long_input =
     [''FOO'' @ replicate 252 CHR '' '', ''END'' @ newline, ''BAR'' @ newline] \<and>
   main long_input = Inr (''Unknown command: FOO'' @ newline)"
proof -
  let ?a = "''FOO'' @ replicate 252 CHR '' ''"
  have verbs: "map verb (lines_of long_input) = [Some ''FOO'', Some ''BAR'']"
    unfolding long_input_lines list.map long_input_verbs ..
  have all: "takeWhile (\<lambda>command. verb command \<noteq> Some ''END'') [long_line, ''BAR'' @ newline] =
      [long_line, ''BAR'' @ newline]"
    unfolding takeWhile.simps long_input_verbs by simp
  have r1: "response long_line init_store =
      Inr (''Unknown command: '' @ ''FOO'' @ newline, init_store)"
    unfolding response_def unknown_FOO_BAR(1)[OF long_input_verbs(2)] by simp
  have r2: "response (''BAR'' @ newline) init_store =
      Inr (''Unknown command: '' @ ''BAR'' @ newline, init_store)"
    unfolding response_def unknown_FOO_BAR(2)[OF long_input_verbs(4)] by simp
  have whole: "output_of (concat_responses
      (takeWhile (\<lambda>command. verb command \<noteq> Some ''END'') (lines_of long_input)) init_store) =
     Inr (''Unknown command: FOO'' @ newline @ ''Unknown command: BAR'' @ newline)"
    unfolding long_input_lines all concat_responses.simps r1 r2 output_of_def sum.case prod.case
    by simp
  have before: "takeWhile (\<lambda>command. verb command \<noteq> Some ''END'')
      [?a, ''END'' @ newline, ''BAR'' @ newline] = [?a]"
    unfolding takeWhile.simps long_input_verbs by simp
  have r0: "response ?a init_store = Inr (''Unknown command: '' @ ''FOO'' @ newline, init_store)"
    unfolding response_def unknown_FOO_BAR(1)[OF long_input_verbs(1)] by simp
  have run: "main long_input = Inr (''Unknown command: FOO'' @ newline)"
    unfolding main_takeWhile long_input_pieces before concat_responses.simps r0 output_of_def
      sum.case prod.case
    by simp
  show ?thesis
    by (intro conjI) (fact long_input_lines verbs whole long_input_pieces run)+
qed

text \<open>
  C7, amended. \<^verbatim>\<open>main\<close> processes the buffers that \<^verbatim>\<open>fgets\<close> fills from the input, in order, up
  to the first buffer whose verb is \<^verbatim>\<open>END\<close>, the verb being the leading token of the C string
  in the buffer: the output is exactly the concatenated responses of the buffers before that
  one, each processed in the store the previous one left, and neither that buffer nor any
  later one contributes. The loop does so from every store and on every list of buffers.
  When every line of the input, its newline included, is shorter than the 256 bytes of the
  command buffer, the buffers are the lines: the output is then the concatenated responses
  of the lines before the first line whose verb is \<^verbatim>\<open>END\<close>. (A buffer that faults, among them
  one without any token, makes the run fault on both sides.)
\<close>

theorem main_until_END:
  "main_loop commands s =
     concat_responses (takeWhile (\<lambda>command. verb command \<noteq> Some ''END'') commands) s \<and>
   main inp =
     output_of (concat_responses
       (takeWhile (\<lambda>command. verb command \<noteq> Some ''END'') (fgets_all MAX_COMMAND_LENGTH inp))
       init_store) \<and>
   ((\<forall>l \<in> set (lines_of inp). length l < MAX_COMMAND_LENGTH) \<longrightarrow>
      main inp =
        output_of (concat_responses
          (takeWhile (\<lambda>command. verb command \<noteq> Some ''END'') (lines_of inp)) init_store))"
proof (intro conjI impI)
  show "main_loop commands s =
     concat_responses (takeWhile (\<lambda>command. verb command \<noteq> Some ''END'') commands) s"
    by (rule main_loop_takeWhile)
  show "main inp =
     output_of (concat_responses
       (takeWhile (\<lambda>command. verb command \<noteq> Some ''END'') (fgets_all MAX_COMMAND_LENGTH inp))
       init_store)"
    by (rule main_takeWhile)
  assume "\<forall>l \<in> set (lines_of inp). length l < MAX_COMMAND_LENGTH"
  moreover have "1 < MAX_COMMAND_LENGTH"
    by (simp add: MAX_COMMAND_LENGTH_def)
  ultimately have "fgets_all MAX_COMMAND_LENGTH inp = lines_of inp"
    by (intro fgets_all_lines)
  then show "main inp =
        output_of (concat_responses
          (takeWhile (\<lambda>command. verb command \<noteq> Some ''END'') (lines_of inp)) init_store)"
    by (simp only: main_takeWhile)
qed

theorem main_until_END_witness:
  "lines_of (''ADD_STUDENT 1 John ComputerScience'' @ newline @ ''FOO'' @ newline @
      ''END'' @ newline @ ''SEARCH_STUDENT 1'' @ newline) =
     [''ADD_STUDENT 1 John ComputerScience'' @ newline, ''FOO'' @ newline, ''END'' @ newline,
      ''SEARCH_STUDENT 1'' @ newline] \<and>
   main (''ADD_STUDENT 1 John ComputerScience'' @ newline @ ''FOO'' @ newline @
      ''END'' @ newline @ ''SEARCH_STUDENT 1'' @ newline) =
     Inr (''Student: 1 added'' @ newline @ ''Unknown command: FOO'' @ newline)"
proof -
  let ?l1 = "''ADD_STUDENT 1 John ComputerScience'' @ newline" and ?l2 = "''FOO'' @ newline"
  let ?l3 = "''END'' @ newline" and ?l4 = "''SEARCH_STUDENT 1'' @ newline"
  let ?inp = "''ADD_STUDENT 1 John ComputerScience'' @ newline @ ''FOO'' @ newline @
      ''END'' @ newline @ ''SEARCH_STUDENT 1'' @ newline"
  let ?s1 = "init_store\<lparr>students := (students init_store)
                   [0 := \<lparr>Student_id = 1, Student_name = ''John'',
                          Student_faculty = ''ComputerScience''\<rparr>],
                 student_count := 1\<rparr>"
  have lines: "lines_of ?inp = [?l1, ?l2, ?l3, ?l4]"
    by (simp add: lines_of.simps newline_def)
  have short: "\<forall>l \<in> set (lines_of ?inp). length l < MAX_COMMAND_LENGTH"
    unfolding lines by (simp add: MAX_COMMAND_LENGTH_def newline_def)
  note inst = main_until_END[THEN conjunct2, THEN conjunct2, THEN mp, OF short]
  have nonul: "CHR 0x00 \<notin> set ?l1" "CHR 0x00 \<notin> set ?l2" "CHR 0x00 \<notin> set ?l3"
    by (simp_all add: newline_def)
  have tok: "tokens ?l1 = [''ADD_STUDENT'', ''1'', ''John'', ''ComputerScience'']"
    "tokens ?l2 = [''FOO'']" "tokens ?l3 = [''END'']"
    by (simp_all add: tokens.simps skip_space_def scan_token_def isspace_def newline_def)
  have v: "verb ?l1 = Some ''ADD_STUDENT''" "verb ?l2 = Some ''FOO''" "verb ?l3 = Some ''END''"
    unfolding verb_def nonul[THEN c_string_id] leading_token_def tok by simp_all
  have before: "takeWhile (\<lambda>command. verb command \<noteq> Some ''END'') [?l1, ?l2, ?l3, ?l4] =
      [?l1, ?l2]"
    unfolding takeWhile.simps v by simp
  have scan0: "sscanf ?l1 fmt_cmd = Inr [Str_arg ''ADD_STUDENT'']"
    unfolding sscanf_cmd v by simp
  have scan: "sscanf ?l1 fmt_student =
      Inr [Int_arg 1, Str_arg ''John'', Str_arg ''ComputerScience'']"
    by (simp add: sscanf_def c_string_def fmt_student_def skip_space_def scan_token_def
        isspace_def scan_int_def isdigit_def decimal_def digit_value_def INT_MIN_def INT_MAX_def
        MAX_NAME_LENGTH_def MAX_FACULTY_LENGTH_def newline_def)
  have add: "add_student 1 ''John'' ''ComputerScience'' init_store =
     Inr (''Student: 1 added'' @ newline, ?s1)"
    by (simp add: add_student_def find_student_None strcpy_def isalpha_def fmt_d_def
        digits.simps digit_char_def MAX_NAME_LENGTH_def MAX_FACULTY_LENGTH_def MAX_STUDENTS_def
        init_store_def)
  have p1: "process_line ?l1 init_store = Inr (Some (''Student: 1 added'' @ newline, ?s1))"
    using scan0 scan add by (rule process_line_add_student)
  have p2: "process_line ?l2 ?s1 = Inr (Some (''Unknown command: '' @ ''FOO'' @ newline, ?s1))"
    using v(2) by (rule unknown_FOO_BAR(1))
  have run: "output_of (concat_responses [?l1, ?l2] init_store) =
      Inr (''Student: 1 added'' @ newline @ ''Unknown command: FOO'' @ newline)"
    unfolding concat_responses.simps response_def p1 p2 output_of_def sum.case option.case
      prod.case
    by simp
  have out: "main ?inp = Inr (''Student: 1 added'' @ newline @ ''Unknown command: FOO'' @ newline)"
    unfolding inst lines before run ..
  show ?thesis
    by (intro conjI) (fact lines out)+
qed

text \<open>
  C8 fails as stated: the line \<^verbatim>\<open>ADD_STUDENT 1John ComputerScience\<close> has two tokens after its
  verb where three are required, and the first is not a number, yet \<^verbatim>\<open>%d\<close> reads \<^verbatim>\<open>1\<close> off the
  front of \<^verbatim>\<open>1John\<close>, \<^verbatim>\<open>%s\<close> takes the rest of that token as the name, and the student is added.
\<close>

theorem tokens_not_checked_counterexample:
  "tokens (''ADD_STUDENT 1John ComputerScience'' @ newline) =
     [''ADD_STUDENT'', ''1John'', ''ComputerScience''] \<and>
   process_line (''ADD_STUDENT 1John ComputerScience'' @ newline) init_store =
     Inr (Some (''Student: 1 added'' @ newline,
                init_store\<lparr>students := (students init_store)
                   [0 := \<lparr>Student_id = 1, Student_name = ''John'',
                          Student_faculty = ''ComputerScience''\<rparr>],
                 student_count := 1\<rparr>)) \<and>
   process_line (''ADD_STUDENT 1John ComputerScience'' @ newline) init_store \<noteq>
     Inr (Some (''Invalid ADD_STUDENT command format'' @ newline, init_store))"
proof -
  have nonul: "CHR 0x00 \<notin> set (''ADD_STUDENT 1John ComputerScience'' @ newline)"
    by (simp add: newline_def)
  have scan0: "sscanf (''ADD_STUDENT 1John ComputerScience'' @ newline) fmt_cmd =
      Inr [Str_arg ''ADD_STUDENT'']"
    unfolding sscanf_cmd verb_def nonul[THEN c_string_id] leading_token_def tokens_eval by simp
  have scan: "sscanf (''ADD_STUDENT 1John ComputerScience'' @ newline) fmt_student =
      Inr [Int_arg 1, Str_arg ''John'', Str_arg ''ComputerScience'']"
    by (simp add: sscanf_def c_string_def fmt_student_def skip_space_def scan_token_def
        isspace_def scan_int_def isdigit_def decimal_def digit_value_def INT_MIN_def INT_MAX_def
        MAX_NAME_LENGTH_def MAX_FACULTY_LENGTH_def newline_def)
  have add: "add_student 1 ''John'' ''ComputerScience'' init_store =
     Inr (''Student: 1 added'' @ newline,
          init_store\<lparr>students := (students init_store)
                   [0 := \<lparr>Student_id = 1, Student_name = ''John'',
                          Student_faculty = ''ComputerScience''\<rparr>],
                 student_count := 1\<rparr>)"
    by (simp add: add_student_def find_student_None strcpy_def isalpha_def fmt_d_def
        digits.simps digit_char_def MAX_NAME_LENGTH_def MAX_FACULTY_LENGTH_def MAX_STUDENTS_def
        init_store_def)
  have run: "process_line (''ADD_STUDENT 1John ComputerScience'' @ newline) init_store =
     Inr (Some (''Student: 1 added'' @ newline,
                init_store\<lparr>students := (students init_store)
                   [0 := \<lparr>Student_id = 1, Student_name = ''John'',
                          Student_faculty = ''ComputerScience''\<rparr>],
                 student_count := 1\<rparr>))"
    using scan0 scan add by (rule process_line_add_student)
  show ?thesis
    unfolding run tokens_eval by simp
qed

text \<open>
  C8, amended. The program reads a buffer as a C string, up to the first NUL if there is
  one; let that string have a leading token. If the token is one of the eight verbs with
  arguments, then the buffer makes the loop print exactly "Invalid <COMMAND> command format"
  and leave the store unchanged whenever \<^verbatim>\<open>sscanf\<close> with the verb's format assigns another
  number of values than the verb requires; this is the case in particular when no token
  follows the verb in the string, and when the token that follows does not begin with an
  optionally signed decimal number. If the leading token is shorter than the 30 bytes of
  \<^verbatim>\<open>cmd\<close> and is none of the ten verbs, the buffer makes the loop print
  "Unknown command: <token>" and leave the store unchanged.
\<close>

theorem malformed_or_unknown_line:
  assumes "verb command = Some cmd"
  shows
    "(\<forall>(v, fmt, n) \<in> set command_formats. cmd = v \<longrightarrow>
        (\<forall>a. sscanf command fmt = Inr a \<and> length a \<noteq> n \<longrightarrow>
           process_line command s =
             Inr (Some (''Invalid '' @ v @ '' command format'' @ newline, s))) \<and>
        ((\<forall>t \<in> set (take 1 (tl (tokens (c_string command)))). scan_int t = None) \<longrightarrow>
           process_line command s =
             Inr (Some (''Invalid '' @ v @ '' command format'' @ newline, s)))) \<and>
     (cmd \<notin> fst ` set command_formats \<and> cmd \<noteq> ''LIST_ALL_STUDENTS'' \<and> cmd \<noteq> ''END'' \<and>
      length cmd < 30 \<longrightarrow>
        process_line command s = Inr (Some (''Unknown command: '' @ cmd @ newline, s)))"
proof (intro conjI ballI impI)
  fix x assume x: "x \<in> set command_formats"
  obtain v fmt n where xv: "x = (v, fmt, n)" by (cases x) auto
  have "cmd = v \<longrightarrow>
        (\<forall>a. sscanf command fmt = Inr a \<and> length a \<noteq> n \<longrightarrow>
           process_line command s =
             Inr (Some (''Invalid '' @ v @ '' command format'' @ newline, s))) \<and>
        ((\<forall>t \<in> set (take 1 (tl (tokens (c_string command)))). scan_int t = None) \<longrightarrow>
           process_line command s =
             Inr (Some (''Invalid '' @ v @ '' command format'' @ newline, s)))"
  proof (intro impI conjI allI)
    fix a
    assume "cmd = v" and a: "sscanf command fmt = Inr a \<and> length a \<noteq> n"
    then have mem: "(cmd, fmt, n) \<in> set command_formats" using x xv by simp
    from assms command_formats_short[OF mem] mem a
    show "process_line command s =
             Inr (Some (''Invalid '' @ v @ '' command format'' @ newline, s))"
      using \<open>cmd = v\<close> process_line_invalid[of command cmd fmt n a s] by simp
  next
    assume "cmd = v"
      and none: "\<forall>t \<in> set (take 1 (tl (tokens (c_string command)))). scan_int t = None"
    then have mem: "(cmd, fmt, n) \<in> set command_formats" using x xv by simp
    from command_formats_shape[OF mem] obtain ds where
      fmt: "fmt = Skip_s # White # Conv_d # ds" and n: "0 < n" by blast
    have "sscanf command fmt = Inr []"
      unfolding fmt using assms none by (rule sscanf_no_number)
    with assms command_formats_short[OF mem] mem n
    show "process_line command s =
             Inr (Some (''Invalid '' @ v @ '' command format'' @ newline, s))"
      using \<open>cmd = v\<close> process_line_invalid[of command cmd fmt n "[]" s] by simp
  qed
  then show "case x of (v, fmt, n) \<Rightarrow> cmd = v \<longrightarrow>
        (\<forall>a. sscanf command fmt = Inr a \<and> length a \<noteq> n \<longrightarrow>
           process_line command s =
             Inr (Some (''Invalid '' @ v @ '' command format'' @ newline, s))) \<and>
        ((\<forall>t \<in> set (take 1 (tl (tokens (c_string command)))). scan_int t = None) \<longrightarrow>
           process_line command s =
             Inr (Some (''Invalid '' @ v @ '' command format'' @ newline, s)))"
    by (simp only: xv prod.case)
next
  assume "cmd \<notin> fst ` set command_formats \<and> cmd \<noteq> ''LIST_ALL_STUDENTS'' \<and> cmd \<noteq> ''END'' \<and>
      length cmd < 30"
  with assms show "process_line command s = Inr (Some (''Unknown command: '' @ cmd @ newline, s))"
    by (simp add: process_line_unknown)
qed

theorem malformed_or_unknown_line_witness:
  "verb (''ADD_GRADE 10 x 5'' @ newline) = Some ''ADD_GRADE'' \<and>
   sscanf (''ADD_GRADE 10 x 5'' @ newline) fmt_3d = Inr [Int_arg 10] \<and>
   process_line (''ADD_GRADE 10 x 5'' @ newline) example_store =
     Inr (Some (''Invalid ADD_GRADE command format'' @ newline, example_store)) \<and>
   tokens (c_string (''SEARCH_GRADE ten 1'' @ newline)) = [''SEARCH_GRADE'', ''ten'', ''1''] \<and>
   scan_int ''ten'' = None \<and>
   process_line (''SEARCH_GRADE ten 1'' @ newline) example_store =
     Inr (Some (''Invalid SEARCH_GRADE command format'' @ newline, example_store)) \<and>
   verb (''FOO 1 2'' @ newline) = Some ''FOO'' \<and>
   process_line (''FOO 1 2'' @ newline) example_store =
     Inr (Some (''Unknown command: FOO'' @ newline, example_store)) \<and>
   verb (''BAR'' @ CHR 0x00 # ''END'' @ newline) = Some ''BAR'' \<and>
   process_line (''BAR'' @ CHR 0x00 # ''END'' @ newline) example_store =
     Inr (Some (''Unknown command: BAR'' @ newline, example_store))"
proof -
  have nonul: "CHR 0x00 \<notin> set (''ADD_GRADE 10 x 5'' @ newline)"
    "CHR 0x00 \<notin> set (''SEARCH_GRADE ten 1'' @ newline)"
    "CHR 0x00 \<notin> set (''FOO 1 2'' @ newline)"
    by (simp_all add: newline_def)
  have tok2: "tokens (c_string (''SEARCH_GRADE ten 1'' @ newline)) =
      [''SEARCH_GRADE'', ''ten'', ''1'']"
    unfolding nonul[THEN c_string_id] tokens_eval ..
  have lead1: "verb (''ADD_GRADE 10 x 5'' @ newline) = Some ''ADD_GRADE''"
    unfolding verb_def nonul[THEN c_string_id] leading_token_def tokens_eval by simp
  have lead2: "verb (''SEARCH_GRADE ten 1'' @ newline) = Some ''SEARCH_GRADE''"
    unfolding verb_def nonul[THEN c_string_id] leading_token_def tokens_eval by simp
  have lead3: "verb (''FOO 1 2'' @ newline) = Some ''FOO''"
    unfolding verb_def nonul[THEN c_string_id] leading_token_def tokens_eval by simp
  have lead4: "verb (''BAR'' @ CHR 0x00 # ''END'' @ newline) = Some ''BAR''"
    by (rule verb_NUL) (simp_all add: isspace_def)
  have scan1: "sscanf (''ADD_GRADE 10 x 5'' @ newline) fmt_3d = Inr [Int_arg 10]"
    by (simp add: sscanf_def c_string_def fmt_3d_def skip_space_def scan_token_def isspace_def
        scan_int_def isdigit_def decimal_def digit_value_def INT_MIN_def INT_MAX_def newline_def)
  have ten: "scan_int ''ten'' = None"
    by (simp add: scan_int_def isdigit_def)
  have mem1: "(''ADD_GRADE'', fmt_3d, 3) \<in> set command_formats"
    and mem2: "(''SEARCH_GRADE'', fmt_2d, 2) \<in> set command_formats"
    by (simp_all add: command_formats_def)
  have a1: "sscanf (''ADD_GRADE 10 x 5'' @ newline) fmt_3d = Inr [Int_arg 10] \<and>
      length [Int_arg 10] \<noteq> 3"
    using scan1 by simp
  note r1 = malformed_or_unknown_line[OF lead1, of example_store, THEN conjunct1, THEN bspec,
      OF mem1, unfolded prod.case, THEN mp, OF refl, THEN conjunct1, THEN spec, THEN mp, OF a1]
  have a2: "\<forall>t \<in> set (take 1 (tl (tokens (c_string (''SEARCH_GRADE ten 1'' @ newline))))).
      scan_int t = None"
    unfolding tok2 using ten by simp
  note r2 = malformed_or_unknown_line[OF lead2, of example_store, THEN conjunct1, THEN bspec,
      OF mem2, unfolded prod.case, THEN mp, OF refl, THEN conjunct2, THEN mp, OF a2]
  have a3: "''FOO'' \<notin> fst ` set command_formats \<and> ''FOO'' \<noteq> ''LIST_ALL_STUDENTS'' \<and>
      ''FOO'' \<noteq> ''END'' \<and> length ''FOO'' < 30"
    by (simp add: command_formats_def)
  note r3 = malformed_or_unknown_line[OF lead3, of example_store, THEN conjunct2, THEN mp, OF a3]
  have a4: "''BAR'' \<notin> fst ` set command_formats \<and> ''BAR'' \<noteq> ''LIST_ALL_STUDENTS'' \<and>
      ''BAR'' \<noteq> ''END'' \<and> length ''BAR'' < 30"
    by (simp add: command_formats_def)
  note r4 = malformed_or_unknown_line[OF lead4, of example_store, THEN conjunct2, THEN mp, OF a4]
  have c1: "process_line (''ADD_GRADE 10 x 5'' @ newline) example_store =
     Inr (Some (''Invalid ADD_GRADE command format'' @ newline, example_store))"
    using r1 by simp
  have c2: "process_line (''SEARCH_GRADE ten 1'' @ newline) example_store =
     Inr (Some (''Invalid SEARCH_GRADE command format'' @ newline, example_store))"
    using r2 by simp
  have c3: "process_line (''FOO 1 2'' @ newline) example_store =
     Inr (Some (''Unknown command: FOO'' @ newline, example_store))"
    using r3 by simp
  have c4: "process_line (''BAR'' @ CHR 0x00 # ''END'' @ newline) example_store =
     Inr (Some (''Unknown command: BAR'' @ newline, example_store))"
    using r4 by simp
  show ?thesis
    by (intro conjI) (fact lead1 scan1 c1 tok2 ten c2 lead3 c3 lead4 c4)+
qed

text \<open>
  C9. In every store reachable from the initial one by calls of the nine operations, each
  live grade has a student id that \<^verbatim>\<open>find_student\<close> finds and an exam id that \<^verbatim>\<open>find_exam\<close>
  finds; hence \<^verbatim>\<open>search_grade\<close> never prints "Exam not found" there, for any pair of ids.
  The stores the command loop passes through are among these (lemma \<open>main_loop_reachable\<close>).
\<close>

theorem reachable_grades_refer:
  assumes "reachable s"
  shows "(\<forall>g \<in> set (live_grades s).
            find_student s (Grade_student_id g) \<noteq> None \<and>
            find_exam s (Grade_exam_id g) \<noteq> None) \<and>
         (\<forall>exam_id student_id.
            search_grade exam_id student_id s \<noteq> ''Exam not found'' @ newline)"
proof -
  have inv: "invariant s" using assms by (rule reachable_invariant)
  then have v: "valid_store s" and refs: "refs_ok s"
    by (simp_all add: invariant_def)
  have live: "\<forall>g \<in> set (live_grades s).
            find_student s (Grade_student_id g) \<noteq> None \<and>
            find_exam s (Grade_exam_id g) \<noteq> None"
    using refs by (simp add: refs_ok_def find_student_None_live[OF v] find_exam_None_live[OF v])
  have "search_grade e st s \<noteq> ''Exam not found'' @ newline" for e st
  proof
    assume a: "search_grade e st s = ''Exam not found'' @ newline"
    then obtain si where "search_grade_from e st si s 0 = ''Exam not found'' @ newline"
      by (auto simp: search_grade_def newline_def split: option.splits)
    then obtain k where k: "k < grade_count s" "Grade_exam_id (grades s ! k) = e"
      "find_exam s e = None"
      using search_grade_from_exam_not_found by blast
    have "grades s ! k \<in> set (live_grades s)"
      using k(1) v by (auto simp: live_grades_def valid_store_def in_set_conv_nth intro!: exI[of _ k])
    with live k(2,3) show False by auto
  qed
  with live show ?thesis by blast
qed

theorem reachable_grades_refer_witness:
  "reachable example_store \<and>
   \<lparr>Grade_exam_id = 10, Grade_student_id = 3, Grade_grade = 77\<rparr> \<in> set (live_grades example_store) \<and>
   find_student example_store 3 \<noteq> None \<and> find_exam example_store 10 \<noteq> None \<and>
   search_grade 10 3 example_store \<noteq> ''Exam not found'' @ newline"
proof -
  let ?g = "\<lparr>Grade_exam_id = 10, Grade_student_id = 3, Grade_grade = 77\<rparr>"
  note inst = reachable_grades_refer[OF example_store_reachable]
  have g: "?g \<in> set (live_grades example_store)"
    by (simp add: example_store_live)
  from inst[THEN conjunct1, rule_format, OF g]
  have "find_student example_store 3 \<noteq> None \<and> find_exam example_store 10 \<noteq> None" by simp
  moreover from inst[THEN conjunct2, rule_format, of 10 3]
  have "search_grade 10 3 example_store \<noteq> ''Exam not found'' @ newline" .
  ultimately show ?thesis
    using example_store_reachable g by blast
qed

text \<open>
  C10. For arguments that pass every test of the function, \<^verbatim>\<open>add_student\<close>, \<^verbatim>\<open>add_exam\<close> and
  \<^verbatim>\<open>add_grade\<close> write at the index given by their counter: when the counter is below the
  length of the array (100, 100 and 10000 entries) the entry is stored and the counter
  incremented, and otherwise the write is outside the array. No test of the functions
  stands between a full array and that write.
\<close>

theorem add_capacity:
  assumes "valid_store s"
  shows
    "(find_student s id' = None \<and>
      length name < MAX_NAME_LENGTH \<and> length faculty < MAX_FACULTY_LENGTH \<and>
      faculty \<in> {''SoftwareEngineering'', ''ComputerScience'', ''DataScience'',
                   ''CyberSecurity'', ''InformationTechnology'',
                   ''ProgrammingLanguagesAndCompilers''} \<and>
      name_isalpha name \<longrightarrow>
      add_student id' name faculty s =
        (if student_count s < length (students s)
         then Inr (''Student: '' @ fmt_d id' @ '' added'' @ newline,
                   s\<lparr>students := (students s)[student_count s :=
                         \<lparr>Student_id = id', Student_name = name, Student_faculty = faculty\<rparr>],
                     student_count := student_count s + 1\<rparr>)
         else Inl OutOfBounds)) \<and>
     (find_exam s exam_id = None \<and>
      length type < MAX_TYPE_LENGTH \<and> length info < MAX_NAME_LENGTH \<longrightarrow>
      add_exam exam_id type info s =
        (if exam_count s < length (exams s)
         then Inr (''Exam: '' @ fmt_d exam_id @ '' added'' @ newline,
                   s\<lparr>exams := (exams s)[exam_count s :=
                         \<lparr>Exam_id = exam_id, Exam_type = type, Exam_info = info\<rparr>],
                     exam_count := exam_count s + 1\<rparr>)
         else Inl OutOfBounds)) \<and>
     (0 \<le> grade_value \<and> grade_value \<le> 100 \<and>
      find_student s sid \<noteq> None \<and> find_exam s eid \<noteq> None \<longrightarrow>
      add_grade eid sid grade_value s =
        (if grade_count s < length (grades s)
         then Inr (''Grade '' @ fmt_d grade_value @ '' added for the student: '' @ fmt_d sid
                     @ newline,
                   s\<lparr>grades := (grades s)[grade_count s :=
                         \<lparr>Grade_exam_id = eid, Grade_student_id = sid,
                          Grade_grade = grade_value\<rparr>],
                     grade_count := grade_count s + 1\<rparr>)
         else Inl OutOfBounds)) \<and>
     length (students s) = 100 \<and> length (exams s) = 100 \<and> length (grades s) = 10000"
proof -
  have len: "length (students s) = MAX_STUDENTS" "length (exams s) = MAX_EXAMS"
    "length (grades s) = MAX_GRADES"
    using assms by (simp_all add: valid_store_def)
  have "find_student s id' = None \<and>
      length name < MAX_NAME_LENGTH \<and> length faculty < MAX_FACULTY_LENGTH \<and>
      faculty \<in> {''SoftwareEngineering'', ''ComputerScience'', ''DataScience'',
                   ''CyberSecurity'', ''InformationTechnology'',
                   ''ProgrammingLanguagesAndCompilers''} \<and>
      name_isalpha name \<longrightarrow>
      add_student id' name faculty s =
        (if student_count s < length (students s)
         then Inr (''Student: '' @ fmt_d id' @ '' added'' @ newline,
                   s\<lparr>students := (students s)[student_count s :=
                         \<lparr>Student_id = id', Student_name = name, Student_faculty = faculty\<rparr>],
                     student_count := student_count s + 1\<rparr>)
         else Inl OutOfBounds)"
    by (auto simp: add_student_def strcpy_def len)
  moreover have "find_exam s exam_id = None \<and>
      length type < MAX_TYPE_LENGTH \<and> length info < MAX_NAME_LENGTH \<longrightarrow>
      add_exam exam_id type info s =
        (if exam_count s < length (exams s)
         then Inr (''Exam: '' @ fmt_d exam_id @ '' added'' @ newline,
                   s\<lparr>exams := (exams s)[exam_count s :=
                         \<lparr>Exam_id = exam_id, Exam_type = type, Exam_info = info\<rparr>],
                     exam_count := exam_count s + 1\<rparr>)
         else Inl OutOfBounds)"
    by (auto simp: add_exam_def strcpy_def len)
  moreover have "0 \<le> grade_value \<and> grade_value \<le> 100 \<and>
      find_student s sid \<noteq> None \<and> find_exam s eid \<noteq> None \<longrightarrow>
      add_grade eid sid grade_value s =
        (if grade_count s < length (grades s)
         then Inr (''Grade '' @ fmt_d grade_value @ '' added for the student: '' @ fmt_d sid
                     @ newline,
                   s\<lparr>grades := (grades s)[grade_count s :=
                         \<lparr>Grade_exam_id = eid, Grade_student_id = sid,
                          Grade_grade = grade_value\<rparr>],
                     grade_count := grade_count s + 1\<rparr>)
         else Inl OutOfBounds)"
    by (auto simp: add_grade_def len)
  moreover have "length (students s) = 100 \<and> length (exams s) = 100 \<and> length (grades s) = 10000"
    using len by (simp add: MAX_STUDENTS_def MAX_EXAMS_def MAX_GRADES_def)
  ultimately show ?thesis by blast
qed

theorem add_capacity_witness:
  "reachable full_store \<and> valid_store full_store \<and>
   student_count full_store = 100 \<and> exam_count full_store = 100 \<and>
   grade_count full_store = 10000 \<and>
   add_student 100 ''A'' ''DataScience'' full_store = Inl OutOfBounds \<and>
   add_exam 100 ''WRITTEN'' ''x'' full_store = Inl OutOfBounds \<and>
   add_grade 0 0 50 full_store = Inl OutOfBounds \<and>
   valid_store example_store \<and>
   add_exam 11 ''ORAL'' ''Final'' example_store =
     Inr (''Exam: '' @ fmt_d 11 @ '' added'' @ newline,
          example_store\<lparr>exams := (exams example_store)[exam_count example_store :=
                            \<lparr>Exam_id = 11, Exam_type = ''ORAL'', Exam_info = ''Final''\<rparr>],
                         exam_count := exam_count example_store + 1\<rparr>)"
proof -
  note full = add_capacity[OF full_store_valid]
  note counts = full_store_counts
  have a1: "add_student 100 ''A'' ''DataScience'' full_store = Inl OutOfBounds"
    using full[of 100 "''A''" "''DataScience''", THEN conjunct1]
    by (simp add: full_store_find counts isalpha_def MAX_NAME_LENGTH_def MAX_FACULTY_LENGTH_def)
  have a2: "add_exam 100 ''WRITTEN'' ''x'' full_store = Inl OutOfBounds"
    using full[of _ _ _ 100 "''WRITTEN''" "''x''", THEN conjunct2, THEN conjunct1]
    by (simp add: full_store_find counts MAX_NAME_LENGTH_def MAX_TYPE_LENGTH_def)
  have a3: "add_grade 0 0 50 full_store = Inl OutOfBounds"
    using full[of _ _ _ _ _ _ 50 0 0, THEN conjunct2, THEN conjunct2, THEN conjunct1]
    by (simp add: full_store_find counts)
  have "find_exam example_store 11 = None"
    by (simp add: find_exam_None example_store_simps)
  then have a4: "add_exam 11 ''ORAL'' ''Final'' example_store =
     Inr (''Exam: '' @ fmt_d 11 @ '' added'' @ newline,
          example_store\<lparr>exams := (exams example_store)[exam_count example_store :=
                            \<lparr>Exam_id = 11, Exam_type = ''ORAL'', Exam_info = ''Final''\<rparr>],
                         exam_count := exam_count example_store + 1\<rparr>)"
    using add_capacity[OF example_store_valid, of _ _ _ 11 "''ORAL''" "''Final''",
        THEN conjunct2, THEN conjunct1]
    by (simp add: example_store_simps MAX_NAME_LENGTH_def MAX_TYPE_LENGTH_def)
  show ?thesis
    by (intro conjI)
      (fact full_store_reachable full_store_valid example_store_valid counts a1 a2 a3 a4)+
qed

end
